theory Spec2Isabelle
  imports Main "HOL-Library.Word" "HOL-Library.Multiset"
begin

section \<open>JavaScript strings\<close>

text \<open>
  The ingestion scripts are JavaScript. A JavaScript string is a sequence of UTF-16 code
  units; \<open>s.length\<close>, \<open>s[i]\<close>, \<open>replace\<close> and \<open>trim\<close> all work on code units, so a
  string is modelled as a list of 16-bit words. \<open>ascii\<close> writes an ASCII literal of the
  source as such a list.
\<close>

type_synonym jschar = "16 word"
type_synonym jsstring = "jschar list"

definition ascii :: "string \<Rightarrow> jsstring" where
  "ascii s = map of_char s"

definition NUL :: jschar where "NUL = 0"
definition TAB :: jschar where "TAB = 9"
definition LF :: jschar where "LF = 10"
definition FF :: jschar where "FF = 12"
definition CR :: jschar where "CR = 13"
definition DQUOTE :: jschar where "DQUOTE = 34"
definition COMMA :: jschar where "COMMA = 44"
definition BOM :: jschar where "BOM = 65279"

text \<open>
  The class \<open>\s\<close> of a JavaScript regular expression, which is also what \<open>trim()\<close>
  removes: the WhiteSpace and LineTerminator code points of ECMAScript (TAB, VT, FF, SP,
  NBSP, ZWNBSP, the Unicode space separators, LF, CR, LS, PS).
\<close>

definition is_js_space :: "jschar \<Rightarrow> bool" where
  "is_js_space c \<longleftrightarrow>
     c = 9 \<or> c = 10 \<or> c = 11 \<or> c = 12 \<or> c = 13 \<or> c = 32 \<or> c = 160 \<or> c = 5760 \<or>
     (8192 \<le> c \<and> c \<le> 8202) \<or> c = 8232 \<or> c = 8233 \<or> c = 8239 \<or> c = 8287 \<or>
     c = 12288 \<or> c = 65279"

definition js_trim :: "jsstring \<Rightarrow> jsstring" where
  "js_trim s = rev (dropWhile is_js_space (rev (dropWhile is_js_space s)))"

text \<open>\<open>s.replace(/\s+/g, "")\<close>: every run of white space is deleted.\<close>

definition strip_spaces :: "jsstring \<Rightarrow> jsstring" where
  "strip_spaces s = filter (\<lambda>c. \<not> is_js_space c) s"

section \<open>Text normalisation (\<open>normalizeText\<close>, \<open>hasMeaningfulText\<close>)\<close>

text \<open>
  \<^verbatim>\<open>
  function normalizeText(raw) {
    return String(raw ?? "")
      .replace(/\u0000/g, "")
      .replace(/\f/g, "\n")
      .replace(/\r\n/g, "\n")
      .replace(/\r/g, "\n")
      .trim();
  }
  function hasMeaningfulText(text) {
    return normalizeText(text).replace(/\s+/g, "").length > 0;
  }
  \<close>
  The same two functions are in the OCR script and in the text-layer script. Each
  \<open>replace\<close> with the \<open>g\<close> flag is one left-to-right pass over the string.
\<close>

definition remove_nul :: "jsstring \<Rightarrow> jsstring" where
  "remove_nul s = filter (\<lambda>c. c \<noteq> NUL) s"

definition ff_to_lf :: "jsstring \<Rightarrow> jsstring" where
  "ff_to_lf s = map (\<lambda>c. if c = FF then LF else c) s"

fun crlf_to_lf :: "jsstring \<Rightarrow> jsstring" where
  "crlf_to_lf [] = []"
| "crlf_to_lf [c] = [c]"
| "crlf_to_lf (c # d # cs) =
     (if c = CR \<and> d = LF then LF # crlf_to_lf cs else c # crlf_to_lf (d # cs))"

definition cr_to_lf :: "jsstring \<Rightarrow> jsstring" where
  "cr_to_lf s = map (\<lambda>c. if c = CR then LF else c) s"

definition normalizeText :: "jsstring \<Rightarrow> jsstring" where
  "normalizeText raw = js_trim (cr_to_lf (crlf_to_lf (ff_to_lf (remove_nul raw))))"

definition hasMeaningfulText :: "jsstring \<Rightarrow> bool" where
  "hasMeaningfulText text \<longleftrightarrow> 0 < length (strip_spaces (normalizeText text))"


section \<open>The source catalogue and the work set\<close>

text \<open>
  A row of the catalogue table \<open>granth_ocr_files\<close>, with the columns the scripts
  select. A column that may be \<open>null\<close> is an option.
\<close>

record source_file =
  id_col :: nat
  ufs_url :: "jsstring option"
  ut_key :: "jsstring option"
  file_name :: "jsstring option"
  file_size :: "nat option"
  custom_id :: "jsstring option"
  original_rel_path :: "jsstring option"
  collection :: "jsstring option"
  subcollection :: "jsstring option"

text \<open>
  Truthiness of a value that is a string or \<open>null\<close>: \<open>null\<close> and the empty string
  are falsy. \<open>a || b\<close> is \<open>a\<close> when \<open>a\<close> is truthy and \<open>b\<close> otherwise.
\<close>

definition truthy :: "jsstring option \<Rightarrow> bool" where
  "truthy v = (case v of None \<Rightarrow> False | Some s \<Rightarrow> s \<noteq> [])"

definition js_or :: "jsstring option \<Rightarrow> jsstring option \<Rightarrow> jsstring option" where
  "js_or a b = (if truthy a then a else b)"

text \<open>\<open>a || d\<close> where \<open>d\<close> is a string: the result is a string.\<close>

definition js_or_str :: "jsstring option \<Rightarrow> jsstring \<Rightarrow> jsstring" where
  "js_or_str a d = (case a of None \<Rightarrow> d | Some s \<Rightarrow> if s \<noteq> [] then s else d)"

text \<open>\<open>String(n)\<close> of a non-negative integer: its decimal digits.\<close>

fun string_of_nat :: "nat \<Rightarrow> jsstring" where
  "string_of_nat n =
     (if n < 10 then [48 + of_nat n] else string_of_nat (n div 10) @ [48 + of_nat (n mod 10)])"

declare string_of_nat.simps [simp del]

text \<open>
  The OCR script and the text-layer script compute the queue in the same way:
  \<^verbatim>\<open>
  const withUrl = sourceFiles.filter((f) => f.ufs_url);
  let processedIds = new Set();
  if (!args.reprocess) processedIds = await fetchProcessedIds(supabase);
  const filtered = withUrl.filter((file) => {
    if (args.reprocess) return true;
    const identity = file.custom_id || file.ut_key;
    if (!identity) return true;
    return !processedIds.has(String(identity));
  });
  \<close>
\<close>

definition withUrl :: "source_file list \<Rightarrow> source_file list" where
  "withUrl sourceFiles = filter (\<lambda>f. truthy (ufs_url f)) sourceFiles"

definition identity :: "source_file \<Rightarrow> jsstring option" where
  "identity file = js_or (custom_id file) (ut_key file)"

definition keep_file :: "bool \<Rightarrow> jsstring set \<Rightarrow> source_file \<Rightarrow> bool" where
  "keep_file reprocess processedIds file =
     (if reprocess then True
      else if \<not> truthy (identity file) then True
      else (case identity file of None \<Rightarrow> True | Some i \<Rightarrow> i \<notin> processedIds))"

definition computeWorkSet :: "source_file list \<Rightarrow> jsstring set \<Rightarrow> bool \<Rightarrow> source_file list" where
  "computeWorkSet sourceFiles processedIds reprocess =
     filter (keep_file reprocess processedIds) (withUrl sourceFiles)"

text \<open>
  The in-memory script (\<open>index_granth_from_db.mjs\<close>) has no URL filter and looks up
  \<open>custom_id\<close> alone:
  \<^verbatim>\<open>
  const queue = sourceFiles.filter((f) => args.reprocess || !processedIds.has(f.custom_id || ""));
  \<close>
\<close>

definition computeWorkSet_mem :: "source_file list \<Rightarrow> jsstring set \<Rightarrow> bool \<Rightarrow> source_file list" where
  "computeWorkSet_mem sourceFiles processedIds reprocess =
     filter (\<lambda>f. reprocess \<or> js_or_str (custom_id f) [] \<notin> processedIds) sourceFiles"

text \<open>
  Every script's worker names the document it processes, and the record it writes, by
  \<^verbatim>\<open>const customId = file.custom_id || file.ut_key || `granth_${file.id}`;\<close>
\<close>

definition customId :: "source_file \<Rightarrow> jsstring" where
  "customId file =
     js_or_str (js_or (custom_id file) (ut_key file)) (ascii ''granth_'' @ string_of_nat (id_col file))"

section \<open>The CSV artifact\<close>

text \<open>
  \<^verbatim>\<open>
  function csvEscape(value) {
    const s = value == null ? "" : String(value);
    return /[",\n\r]/.test(s) ? `"${s.replaceAll('"', '""')}"` : s;
  }
  \<close>
  The character class holds the double quote, the comma and the two line-break
  characters LF and CR.
\<close>

definition needs_quote :: "jsstring \<Rightarrow> bool" where
  "needs_quote s \<longleftrightarrow> DQUOTE \<in> set s \<or> COMMA \<in> set s \<or> LF \<in> set s \<or> CR \<in> set s"

definition double_quotes :: "jsstring \<Rightarrow> jsstring" where
  "double_quotes s = concat (map (\<lambda>c. if c = DQUOTE then [DQUOTE, DQUOTE] else [c]) s)"

definition csvEscape :: "jsstring \<Rightarrow> jsstring" where
  "csvEscape s = (if needs_quote s then [DQUOTE] @ double_quotes s @ [DQUOTE] else s)"

text \<open>
  The CSV viewer page parses an artifact with \<open>parseCsvRows\<close>: it drops a leading
  byte-order mark, scans the code units once with the state
  \<open>(rows, row, field, inQuotes)\<close>, pushes what is left at the end, and drops every row
  that is a single empty field.
  \<^verbatim>\<open>
  function parseCsvRows(input: string) {
    const csv = input.charCodeAt(0) === 0xfeff ? input.slice(1) : input;
    const rows: string[][] = []; let row: string[] = []; let field = ""; let inQuotes = false;
    for (let i = 0; i < csv.length; i++) {
      const ch = csv[i];
      if (inQuotes) {
        if (ch === '"') {
          if (csv[i + 1] === '"') { field += '"'; i += 1; } else { inQuotes = false; }
        } else { field += ch; }
        continue;
      }
      if (ch === '"') { inQuotes = true; continue; }
      if (ch === ",") { row.push(field); field = ""; continue; }
      if (ch === "\n") { row.push(field); rows.push(row); row = []; field = ""; continue; }
      if (ch === "\r") {
        if (csv[i + 1] === "\n") i += 1;
        row.push(field); rows.push(row); row = []; field = ""; continue;
      }
      field += ch;
    }
    if (field.length > 0 || row.length > 0) { row.push(field); rows.push(row); }
    return rows.filter((r) => !(r.length === 1 && r[0] === ""));
  }
  \<close>
\<close>

function parse_loop ::
  "bool \<Rightarrow> jsstring \<Rightarrow> jsstring list \<Rightarrow> jsstring list list \<Rightarrow> jsstring \<Rightarrow>
   jsstring list list \<times> jsstring list \<times> jsstring" where
  "parse_loop inQuotes field row rows [] = (rows, row, field)"
| "parse_loop True field row rows (ch # cs) =
     (if ch = DQUOTE then
        (case cs of
           [] \<Rightarrow> parse_loop False field row rows cs
         | d # ds \<Rightarrow>
             if d = DQUOTE then parse_loop True (field @ [DQUOTE]) row rows ds
             else parse_loop False field row rows cs)
      else parse_loop True (field @ [ch]) row rows cs)"
| "parse_loop False field row rows (ch # cs) =
     (if ch = DQUOTE then parse_loop True field row rows cs
      else if ch = COMMA then parse_loop False [] (row @ [field]) rows cs
      else if ch = LF then parse_loop False [] [] (rows @ [row @ [field]]) cs
      else if ch = CR then
        parse_loop False [] [] (rows @ [row @ [field]])
          (case cs of [] \<Rightarrow> cs | d # ds \<Rightarrow> if d = LF then ds else cs)
      else parse_loop False (field @ [ch]) row rows cs)"
  by pat_completeness auto
termination
  by (relation "measure (\<lambda>(q, f, r, rs, s). length s)") (auto split: list.splits)

definition parseCsvRows :: "jsstring \<Rightarrow> jsstring list list" where
  "parseCsvRows input =
     (let csv = (case input of [] \<Rightarrow> input | c # cs \<Rightarrow> if c = BOM then cs else input);
          (rows, row, field) = parse_loop False [] [] [] csv;
          rows' = (if 0 < length field \<or> 0 < length row then rows @ [row @ [field]] else rows)
      in filter (\<lambda>r. \<not> (length r = 1 \<and> r ! 0 = [])) rows')"

text \<open>
  One page of a document as the OCR script collects it, and the artifact it writes: the
  header line, then one line per stored page,
  \<^verbatim>\<open>
  [csvEscape(pdfName), csvEscape(customId), csvEscape(pdfUrl),
   String(page.page_number), csvEscape(page.text)].join(",") + "\n"
  \<close>
\<close>

record page_result =
  page_number :: nat
  page_text :: jsstring
  chars :: nat

fun join_comma :: "jsstring list \<Rightarrow> jsstring" where
  "join_comma [] = []"
| "join_comma [x] = x"
| "join_comma (x # y # ys) = x @ [COMMA] @ join_comma (y # ys)"

definition csv_header :: jsstring where
  "csv_header = ascii ''pdf_name,custom_id,pdf_url,page_number,text'' @ [LF]"

definition csv_line :: "jsstring \<Rightarrow> jsstring \<Rightarrow> jsstring \<Rightarrow> page_result \<Rightarrow> jsstring" where
  "csv_line pdfName cid pdfUrl page =
     join_comma [csvEscape pdfName, csvEscape cid, csvEscape pdfUrl,
                 string_of_nat (page_number page), csvEscape (page_text page)] @ [LF]"

definition csv_file :: "jsstring \<Rightarrow> jsstring \<Rightarrow> jsstring \<Rightarrow> page_result list \<Rightarrow> jsstring" where
  "csv_file pdfName cid pdfUrl pages =
     csv_header @ concat (map (csv_line pdfName cid pdfUrl) pages)"

text \<open>The rows a reader should get back from such an artifact.\<close>

definition csv_header_row :: "jsstring list" where
  "csv_header_row =
     [ascii ''pdf_name'', ascii ''custom_id'', ascii ''pdf_url'', ascii ''page_number'', ascii ''text'']"

definition csv_row :: "jsstring \<Rightarrow> jsstring \<Rightarrow> jsstring \<Rightarrow> page_result \<Rightarrow> jsstring list" where
  "csv_row pdfName cid pdfUrl page =
     [pdfName, cid, pdfUrl, string_of_nat (page_number page), page_text page]"

text \<open>
  Two catalogue rows used as concrete inputs below: one uploaded without a custom id
  (the catalogue sync stores \<open>custom_id: data.customId || null\<close> and
  \<open>ut_key: data.key || null\<close>), and one with neither key.
\<close>

definition keyed_by_ut_key :: source_file where
  "keyed_by_ut_key =
     \<lparr>id_col = 1, ufs_url = Some (ascii ''https://x/a.pdf''), ut_key = Some (ascii ''K''),
      file_name = Some (ascii ''a.pdf''), file_size = None, custom_id = None,
      original_rel_path = None, collection = None, subcollection = None\<rparr>"

definition unkeyed :: source_file where
  "unkeyed =
     \<lparr>id_col = 7, ufs_url = Some (ascii ''https://x/b.pdf''), ut_key = None,
      file_name = None, file_size = None, custom_id = None,
      original_rel_path = None, collection = None, subcollection = None\<rparr>"

section \<open>The bounded-parallelism driver (\<open>runConcurrent\<close>)\<close>

text \<open>
  \<^verbatim>\<open>
  async function runConcurrent(items, concurrency, worker) {
    if (items.length === 0) return;
    let next = 0;
    const workers = Array.from({ length: Math.min(concurrency, items.length) }, async () => {
      while (true) {
        const idx = next;
        next += 1;
        if (idx >= items.length) return;
        await worker(items[idx], idx);
      }
    });
    await Promise.all(workers);
  }
  \<close>
  JavaScript runs one piece of code at a time and switches only at an \<open>await\<close>, so
  reading and incrementing \<open>next\<close> is one step. Each of the async functions is a task
  that is awaiting the handler of an index, has returned, or has thrown because the
  handler it awaited rejected (the loop has no \<open>try\<close>). The state of the driver is the
  cursor and the tasks; three logs record which indices had their handler started, which
  handlers completed and which rejected, in the order of time, and \<open>results\<close> records
  what the completed handlers produced.

  \<open>Array.from\<close> starts the tasks one after the other, each running up to its first
  \<open>await\<close> (\<open>spawn\<close>). After that the only events are handlers settling: \<open>settle\<close>
  is the continuation of task \<open>w\<close> when the handler it awaits settles. Which handler
  settles next is decided outside the script, so a run is given by a schedule, the list
  of the task numbers in the order in which their handlers settle. A handler is a
  function that gives \<open>None\<close> when it rejects and its result otherwise.
  \<open>Promise.all\<close> is rejected as soon as one task has thrown, fulfilled when all have
  returned, and pending otherwise.
\<close>

datatype task = Awaiting nat | Returned | Threw

datatype promise = Pending | Fulfilled | Rejected

record 'r pool =
  next_idx :: nat
  tasks :: "task list"
  started :: "nat list"
  completed :: "nat list"
  failed :: "nat list"
  results :: "'r list"

definition take_next :: "nat \<Rightarrow> 'r pool \<Rightarrow> task \<times> 'r pool" where
  "take_next n st =
     (let idx = next_idx st in
      if idx \<ge> n then (Returned, st\<lparr>next_idx := idx + 1\<rparr>)
      else (Awaiting idx, st\<lparr>next_idx := idx + 1, started := started st @ [idx]\<rparr>))"

definition spawn :: "nat \<Rightarrow> 'r pool \<Rightarrow> 'r pool" where
  "spawn n st = (case take_next n st of (t, st') \<Rightarrow> st'\<lparr>tasks := tasks st' @ [t]\<rparr>)"

definition settle :: "'a list \<Rightarrow> ('a \<Rightarrow> nat \<Rightarrow> 'r option) \<Rightarrow> 'r pool \<Rightarrow> nat \<Rightarrow> 'r pool" where
  "settle items worker st w =
     (if w < length (tasks st) then
        (case tasks st ! w of
           Awaiting idx \<Rightarrow>
             (case worker (items ! idx) idx of
                None \<Rightarrow> st\<lparr>tasks := (tasks st)[w := Threw], failed := failed st @ [idx]\<rparr>
              | Some r \<Rightarrow>
                  (case take_next (length items)
                          (st\<lparr>completed := completed st @ [idx], results := results st @ [r]\<rparr>) of
                     (t, st') \<Rightarrow> st'\<lparr>tasks := (tasks st')[w := t]\<rparr>))
         | Returned \<Rightarrow> st
         | Threw \<Rightarrow> st)
      else st)"

definition pool_init :: "'r pool" where
  "pool_init =
     \<lparr>next_idx = 0, tasks = [], started = [], completed = [], failed = [], results = []\<rparr>"

definition runConcurrent ::
  "'a list \<Rightarrow> nat \<Rightarrow> ('a \<Rightarrow> nat \<Rightarrow> 'r option) \<Rightarrow> nat list \<Rightarrow> 'r pool" where
  "runConcurrent items concurrency worker schedule =
     foldl (settle items worker)
       ((spawn (length items) ^^ min concurrency (length items)) pool_init) schedule"

definition promise_all :: "task list \<Rightarrow> promise" where
  "promise_all ts =
     (if Threw \<in> set ts then Rejected
      else if list_all (\<lambda>t. t = Returned) ts then Fulfilled else Pending)"

fun awaited :: "task \<Rightarrow> nat list" where
  "awaited (Awaiting i) = [i]"
| "awaited Returned = []"
| "awaited Threw = []"

definition in_flight :: "'r pool \<Rightarrow> nat list" where
  "in_flight st = concat (map awaited (tasks st))"

text \<open>What holds in every state a run can reach.\<close>

definition pool_inv :: "'a list \<Rightarrow> ('a \<Rightarrow> nat \<Rightarrow> 'r option) \<Rightarrow> 'r pool \<Rightarrow> bool" where
  "pool_inv items worker st \<longleftrightarrow>
     started st = [0..<min (next_idx st) (length items)] \<and>
     (Returned \<in> set (tasks st) \<longrightarrow> length items < next_idx st) \<and>
     mset (completed st) + mset (in_flight st) + mset (failed st) = mset (started st) \<and>
     (Threw \<in> set (tasks st) \<longleftrightarrow> failed st \<noteq> []) \<and>
     map Some (results st) = map (\<lambda>i. worker (items ! i) i) (completed st) \<and>
     (\<forall>i \<in> set (failed st). worker (items ! i) i = None)"

text \<open>Two handlers used as concrete inputs: one never rejects, one rejects on index 0.\<close>

definition ok_worker :: "nat \<Rightarrow> nat \<Rightarrow> nat option" where
  "ok_worker item idx = Some item"

definition fail_first :: "nat \<Rightarrow> nat \<Rightarrow> nat option" where
  "fail_first item idx = (if idx = 0 then None else Some item)"

section \<open>Errors and the external toolchain\<close>

text \<open>
  Every \<open>throw\<close> of the workers is a value of \<open>error\<close>. The scripts throw plain
  \<open>Error\<close> objects that differ in their message; the constructors keep what the
  messages carry: the failing store operation or command, and the page statistics of the
  "no extractable text" errors.
\<close>

datatype error =
    StoreError jsstring
  | DownloadError
  | CommandError jsstring
  | NoTextAfterOcr nat nat nat
  | NoTextLayer nat nat nat
  | NoTextInMemory jsstring
  | ExtractorError jsstring
  | UploadEmpty
  | UploadError jsstring

text \<open>
  The external commands are parameters: \<open>pdfinfo\<close> gives the page count or fails;
  \<open>pdftoppm\<close> renders a page to an image or fails; \<open>tesseract\<close> reads the image of a
  page in a layout mode (\<open>--psm\<close>) and prints text or fails; \<open>pdftotext\<close> prints the
  text layer of a page or fails. The image of page \<open>p\<close> is the file
  \<open>${imageBase}_${p}.png\<close>, so an image is named by its page number.
\<close>

definition PSM_PRIMARY :: nat where "PSM_PRIMARY = 6"

definition PSM_FALLBACK :: nat where "PSM_FALLBACK = 3"

record toolchain =
  pdfinfo :: "nat option"
  pdftoppm :: "nat \<Rightarrow> bool"
  tesseract :: "nat \<Rightarrow> nat \<Rightarrow> jsstring option"
  pdftotext :: "nat \<Rightarrow> jsstring option"

definition getPdfPageCount :: "toolchain \<Rightarrow> error + nat" where
  "getPdfPageCount tools =
     (case pdfinfo tools of None \<Rightarrow> Inl (CommandError (ascii ''pdfinfo'')) | Some n \<Rightarrow> Inr n)"

definition runTesseract :: "toolchain \<Rightarrow> nat \<Rightarrow> nat \<Rightarrow> error + jsstring" where
  "runTesseract tools imagePath psm =
     (case tesseract tools imagePath psm of
        None \<Rightarrow> Inl (CommandError (ascii ''tesseract''))
      | Some stdout \<Rightarrow> Inr (normalizeText stdout))"

section \<open>The OCR page handler\<close>

text \<open>
  \<^verbatim>\<open>
  await renderPageToPng(temp.pdfPath, page, imageBase, args.dpi);
  let text = await runTesseract(imagePath, langSpec, PSM_PRIMARY, args.tessThreads);
  if (!hasMeaningfulText(text)) {
    text = await runTesseract(imagePath, langSpec, PSM_FALLBACK, args.tessThreads);
    psmUsed = PSM_FALLBACK;
  }
  const normalized = normalizeText(text);
  const charCount = normalized.replace(/\s+/g, "").length;
  pageResults.push({ page_number: page, text: normalized, chars: charCount });
  \<close>
  \<open>ocr_page\<close> returns the \<open>tesseract\<close> calls made, as pairs of image and layout
  mode, and the pushed record or the error thrown.
\<close>

definition page_record :: "nat \<Rightarrow> jsstring \<Rightarrow> page_result" where
  "page_record page txt =
     (let normalized = normalizeText txt;
          charCount = length (strip_spaces normalized)
      in \<lparr>page_number = page, page_text = normalized, chars = charCount\<rparr>)"

definition ocr_page :: "toolchain \<Rightarrow> nat \<Rightarrow> (nat \<times> nat) list \<times> (error + page_result)" where
  "ocr_page tools page =
     (if \<not> pdftoppm tools page then ([], Inl (CommandError (ascii ''pdftoppm'')))
      else
        (case runTesseract tools page PSM_PRIMARY of
           Inl e \<Rightarrow> ([(page, PSM_PRIMARY)], Inl e)
         | Inr txt \<Rightarrow>
             if \<not> hasMeaningfulText txt then
               (case runTesseract tools page PSM_FALLBACK of
                  Inl e \<Rightarrow> ([(page, PSM_PRIMARY), (page, PSM_FALLBACK)], Inl e)
                | Inr txt' \<Rightarrow>
                    ([(page, PSM_PRIMARY), (page, PSM_FALLBACK)], Inr (page_record page txt')))
             else ([(page, PSM_PRIMARY)], Inr (page_record page txt))))"

definition ocr_handler :: "toolchain \<Rightarrow> nat \<Rightarrow> nat \<Rightarrow> page_result option" where
  "ocr_handler tools page idx =
     (case snd (ocr_page tools page) of Inl e \<Rightarrow> None | Inr r \<Rightarrow> Some r)"

text \<open>
  The pages \<open>1..pagesToProcess\<close> go through \<open>runConcurrent\<close>; \<open>pageResults\<close> is
  what the handlers pushed, in the order in which they completed. The result is
  \<open>None\<close> while the driver is still pending under the given schedule, and the error
  of the first handler that rejected when the driver is rejected.
\<close>

definition pagesToProcess :: "nat option \<Rightarrow> nat \<Rightarrow> nat" where
  "pagesToProcess maxPages totalPages =
     (case maxPages of None \<Rightarrow> totalPages | Some m \<Rightarrow> min totalPages m)"

definition pageNumbers :: "nat \<Rightarrow> nat list" where
  "pageNumbers n = map (\<lambda>i. i + 1) [0..<n]"

definition ocr_pages ::
  "toolchain \<Rightarrow> nat \<Rightarrow> nat \<Rightarrow> nat list \<Rightarrow> (error + page_result list) option" where
  "ocr_pages tools n pageConcurrency schedule =
     (let pool = runConcurrent (pageNumbers n) pageConcurrency (ocr_handler tools) schedule in
      case promise_all (tasks pool) of
        Pending \<Rightarrow> None
      | Rejected \<Rightarrow>
          (case failed pool of
             [] \<Rightarrow> None
           | idx # _ \<Rightarrow>
               (case snd (ocr_page tools (pageNumbers n ! idx)) of
                  Inl e \<Rightarrow> Some (Inl e)
                | Inr r \<Rightarrow> None))
      | Fulfilled \<Rightarrow> Some (Inr (results pool)))"

text \<open>
  \<^verbatim>\<open>
  pageResults.sort((a, b) => a.page_number - b.page_number);
  const nonEmptyPages = pageResults.filter((p) => p.chars > 0);
  \<close>
\<close>

definition nonEmptyPages :: "page_result list \<Rightarrow> page_result list" where
  "nonEmptyPages pageResults = filter (\<lambda>p. 0 < chars p) (sort_key page_number pageResults)"

section \<open>The record store\<close>

text \<open>
  The table \<open>documents\<close> is keyed by \<open>custom_id\<close>; a row gives every column a value,
  \<open>null\<close> by default. A payload is a JavaScript object: it has some of the columns.
  \<open>upsert(payload, {onConflict: "custom_id"})\<close> inserts the row or, when a row with
  the key exists, overwrites the columns the payload has and leaves the others;
  \<open>update(payload).eq("custom_id", k)\<close> changes an existing row only. The table
  \<open>document_pages\<close> is keyed by \<open>(custom_id, page_number)\<close>.
\<close>

datatype jsval = Null | Str jsstring | Num nat

datatype column =
    Col_original_relative_path | Col_custom_id | Col_pdf_name | Col_pdf_url | Col_size_bytes
  | Col_modified_time_iso | Col_status | Col_error | Col_csv_url | Col_csv_key | Col_updated_at

type_synonym payload = "column \<rightharpoonup> jsval"

type_synonym doc_row = "column \<Rightarrow> jsval"

record store =
  documents :: "jsstring \<rightharpoonup> doc_row"
  document_pages :: "jsstring \<times> nat \<rightharpoonup> jsstring"

definition upsert_row :: "(jsstring \<rightharpoonup> doc_row) \<Rightarrow> payload \<Rightarrow> (jsstring \<rightharpoonup> doc_row)" where
  "upsert_row docs p =
     (case p Col_custom_id of
        Some (Str k) \<Rightarrow>
          docs(k \<mapsto> (\<lambda>c. case p c of
                            Some v \<Rightarrow> v
                          | None \<Rightarrow> (case docs k of Some row \<Rightarrow> row c | None \<Rightarrow> Null)))
      | _ \<Rightarrow> docs)"

definition update_row :: "(jsstring \<rightharpoonup> doc_row) \<Rightarrow> jsstring \<Rightarrow> payload \<Rightarrow> (jsstring \<rightharpoonup> doc_row)" where
  "update_row docs k p =
     (case docs k of
        None \<Rightarrow> docs
      | Some row \<Rightarrow> docs(k \<mapsto> (\<lambda>c. case p c of Some v \<Rightarrow> v | None \<Rightarrow> row c)))"

text \<open>
  \<^verbatim>\<open>
  const pdfName = file.file_name || `file_${file.id}.pdf`;
  const docPayload = {
    original_relative_path: file.original_rel_path || null,
    custom_id: customId, pdf_name: pdfName, pdf_url: pdfUrl,
    size_bytes: file.file_size || null, modified_time_iso: null,
  };
  \<close>
\<close>

definition str_or_null :: "jsstring option \<Rightarrow> jsval" where
  "str_or_null v = (case v of None \<Rightarrow> Null | Some s \<Rightarrow> Str s)"

definition truthy_or_null :: "jsstring option \<Rightarrow> jsval" where
  "truthy_or_null v = (if truthy v then str_or_null v else Null)"

definition pdf_name_of :: "source_file \<Rightarrow> jsstring" where
  "pdf_name_of file =
     js_or_str (file_name file) (ascii ''file_'' @ string_of_nat (id_col file) @ ascii ''.pdf'')"

definition url_text :: "source_file \<Rightarrow> jsstring" where
  "url_text file = (case ufs_url file of None \<Rightarrow> [] | Some u \<Rightarrow> u)"

definition docPayload :: "source_file \<Rightarrow> payload" where
  "docPayload file =
     [Col_original_relative_path \<mapsto> truthy_or_null (original_rel_path file),
      Col_custom_id \<mapsto> Str (customId file),
      Col_pdf_name \<mapsto> Str (pdf_name_of file),
      Col_pdf_url \<mapsto> str_or_null (ufs_url file),
      Col_size_bytes \<mapsto> (case file_size file of None \<Rightarrow> Null | Some n \<Rightarrow> if n = 0 then Null else Num n),
      Col_modified_time_iso \<mapsto> Null]"

text \<open>
  The status writes of the scripts that read the catalogue (OCR, text layer, in memory):
  \<^verbatim>\<open>
  upsertDocPending:  upsert({...payload, status: "pending", error: null, updated_at})
  upsertDocFailed:   upsert({...payload, status: "failed", error: errorMessage, updated_at})
  markDocProcessed:  update({status: "processed", error: null, csv_url, csv_key, updated_at})
                       .eq("custom_id", customId)
  \<close>
  \<open>now\<close> is \<open>new Date().toISOString()\<close>.
\<close>

definition upsertDocPending :: "jsstring \<Rightarrow> payload \<Rightarrow> store \<Rightarrow> store" where
  "upsertDocPending now p st =
     st\<lparr>documents := upsert_row (documents st)
           (p(Col_status \<mapsto> Str (ascii ''pending''), Col_error \<mapsto> Null,
              Col_updated_at \<mapsto> Str now))\<rparr>"

definition upsertDocFailed :: "jsstring \<Rightarrow> payload \<Rightarrow> jsstring \<Rightarrow> store \<Rightarrow> store" where
  "upsertDocFailed now p errorMessage st =
     st\<lparr>documents := upsert_row (documents st)
           (p(Col_status \<mapsto> Str (ascii ''failed''), Col_error \<mapsto> Str errorMessage,
              Col_updated_at \<mapsto> Str now))\<rparr>"

definition markDocProcessed ::
  "jsstring \<Rightarrow> jsstring \<Rightarrow> jsstring option \<Rightarrow> jsstring option \<Rightarrow> store \<Rightarrow> store" where
  "markDocProcessed now cid url key st =
     st\<lparr>documents := update_row (documents st) cid
           [Col_status \<mapsto> Str (ascii ''processed''), Col_error \<mapsto> Null,
            Col_csv_url \<mapsto> str_or_null url, Col_csv_key \<mapsto> str_or_null key,
            Col_updated_at \<mapsto> Str now]\<rparr>"

text \<open>
  The manifest script writes the two artifact columns as well:
  \<^verbatim>\<open>
  upsertDocumentPending: upsert({...payload, status: "pending", error: null,
                                 csv_url: null, csv_key: null, updated_at})
  upsertDocumentFailed:  upsert({...payload, status: "failed", error: errorMessage,
                                 csv_url: null, csv_key: null, updated_at})
  \<close>
\<close>

definition upsertDocumentPending :: "jsstring \<Rightarrow> payload \<Rightarrow> store \<Rightarrow> store" where
  "upsertDocumentPending now p st =
     st\<lparr>documents := upsert_row (documents st)
           (p(Col_status \<mapsto> Str (ascii ''pending''), Col_error \<mapsto> Null,
              Col_csv_url \<mapsto> Null, Col_csv_key \<mapsto> Null, Col_updated_at \<mapsto> Str now))\<rparr>"

definition upsertDocumentFailed :: "jsstring \<Rightarrow> payload \<Rightarrow> jsstring \<Rightarrow> store \<Rightarrow> store" where
  "upsertDocumentFailed now p errorMessage st =
     st\<lparr>documents := upsert_row (documents st)
           (p(Col_status \<mapsto> Str (ascii ''failed''), Col_error \<mapsto> Str errorMessage,
              Col_csv_url \<mapsto> Null, Col_csv_key \<mapsto> Null, Col_updated_at \<mapsto> Str now))\<rparr>"

text \<open>Page rows: delete by \<open>custom_id\<close>, and upsert of a chunk of rows.\<close>

definition clearPages :: "jsstring \<Rightarrow> store \<Rightarrow> store" where
  "clearPages cid st =
     st\<lparr>document_pages := (\<lambda>(k, n). if k = cid then None else document_pages st (k, n))\<rparr>"

definition upsertPageChunk :: "jsstring \<Rightarrow> page_result list \<Rightarrow> store \<Rightarrow> store" where
  "upsertPageChunk cid chunk st =
     st\<lparr>document_pages :=
          fold (\<lambda>p m. m((cid, page_number p) \<mapsto> page_text p)) chunk (document_pages st)\<rparr>"

text \<open>
  \<^verbatim>\<open>
  function shortErr(error, max = 1800) {
    const message = error instanceof Error ? error.stack || error.message : String(error);
    return message.length > max ? `${message.slice(0, max)}...` : message;
  }
  \<close>
  The stack text of an error is produced by the runtime; here \<open>shortErr\<close> takes the
  message.
\<close>

definition shortErr :: "nat \<Rightarrow> jsstring \<Rightarrow> jsstring" where
  "shortErr mx message = (if length message > mx then take mx message @ ascii ''...'' else message)"

section \<open>Uploading the artifact\<close>

text \<open>
  What \<open>utapi.uploadFiles\<close> answers: nothing, an error (as the text
  \<open>toErrorText\<close> makes of it), or the data of the stored file (\<open>ufsUrl\<close>, \<open>url\<close>,
  \<open>key\<close>, each possibly missing). What \<open>utapi.getFileUrls(csvCustomId, {keyType:
  "customId"})\<close> answers: it throws, it has no first entry, or the first entry with its
  \<open>url\<close> and \<open>key\<close>.
\<close>

datatype upload_reply =
    NoReply
  | ReplyError jsstring
  | ReplyData "jsstring option" "jsstring option" "jsstring option"

datatype lookup_reply =
    LookupThrows
  | LookupNone
  | LookupHit "jsstring option" "jsstring option"

record csv_ref =
  csvUrl :: "jsstring option"
  csvKey :: "jsstring option"

definition nullish_or :: "'a option \<Rightarrow> 'a option \<Rightarrow> 'a option" where
  "nullish_or a b = (case a of None \<Rightarrow> b | Some x \<Rightarrow> Some x)"

text \<open>\<open>/already exists|409/i.test(text)\<close>: a substring test, the first part ignoring case.\<close>

definition to_lower :: "jschar \<Rightarrow> jschar" where
  "to_lower c = (if 65 \<le> c \<and> c \<le> 90 then c + 32 else c)"

fun contains :: "jsstring \<Rightarrow> jsstring \<Rightarrow> bool" where
  "contains needle [] = (needle = [])"
| "contains needle (c # cs) = (take (length needle) (c # cs) = needle \<or> contains needle cs)"

definition mentions_conflict :: "jsstring \<Rightarrow> bool" where
  "mentions_conflict txt \<longleftrightarrow>
     contains (ascii ''already exists'') (map to_lower txt) \<or> contains (ascii ''409'') txt"

text \<open>
  The OCR script uploads under the key \<open>${customId}__pages_csv_ocr500\<close>:
  \<^verbatim>\<open>
  if (!first) throw new Error(`uploadFiles returned empty`);
  if (first.error) {
    const text = toErrorText(first.error);
    try {
      const urls = await utapi.getFileUrls(csvCustomId, { keyType: "customId" });
      const hit = Array.isArray(urls?.data) ? urls.data[0] : null;
      if (hit?.url || hit?.key) {
        return { csvUrl: hit.url ?? (appId ? `https://${appId}.ufs.sh/f/${csvCustomId}` : null),
                 csvKey: hit.key ?? null };
      }
    } catch { }
    if (/already exists|409/i.test(text) && appId) {
      return { csvUrl: `https://${appId}.ufs.sh/f/${csvCustomId}`, csvKey: null };
    }
    throw new Error(`uploadFiles error: ${shortErr(text)}`);
  }
  const data = first.data || {};
  return { csvUrl: data.ufsUrl ?? data.url ?? null, csvKey: data.key ?? null };
  \<close>
\<close>

definition ufs_file_url :: "jsstring \<Rightarrow> jsstring \<Rightarrow> jsstring" where
  "ufs_file_url appId cid = ascii ''https://'' @ appId @ ascii ''.ufs.sh/f/'' @ cid"

definition app_url :: "jsstring option \<Rightarrow> jsstring \<Rightarrow> jsstring option" where
  "app_url appId cid =
     (case appId of None \<Rightarrow> None | Some a \<Rightarrow> if a \<noteq> [] then Some (ufs_file_url a cid) else None)"

definition resolve_existing :: "lookup_reply \<Rightarrow> jsstring \<Rightarrow> jsstring option \<Rightarrow> csv_ref option" where
  "resolve_existing lookup csvCustomId appId =
     (case lookup of
        LookupThrows \<Rightarrow> None
      | LookupNone \<Rightarrow> None
      | LookupHit url key \<Rightarrow>
          if truthy url \<or> truthy key
          then Some \<lparr>csvUrl = nullish_or url (app_url appId csvCustomId), csvKey = key\<rparr>
          else None)"

definition uploadCsv ::
  "upload_reply \<Rightarrow> lookup_reply \<Rightarrow> jsstring \<Rightarrow> jsstring option \<Rightarrow> error + csv_ref" where
  "uploadCsv reply lookup csvCustomId appId =
     (case reply of
        NoReply \<Rightarrow> Inl UploadEmpty
      | ReplyError txt \<Rightarrow>
          (case resolve_existing lookup csvCustomId appId of
             Some ref \<Rightarrow> Inr ref
           | None \<Rightarrow>
               if mentions_conflict txt \<and> truthy appId
               then Inr \<lparr>csvUrl = app_url appId csvCustomId, csvKey = None\<rparr>
               else Inl (UploadError (shortErr 1800 txt)))
      | ReplyData ufsUrl url key \<Rightarrow> Inr \<lparr>csvUrl = nullish_or ufsUrl url, csvKey = key\<rparr>)"

text \<open>
  The in-memory and the text-layer script upload without a key and throw on every error:
  \<^verbatim>\<open>
  if (!first) throw new Error("uploadFiles returned empty");
  if (first.error) throw new Error(`uploadFiles error: ${JSON.stringify(first.error)}`);
  \<close>
\<close>

definition uploadCsv_mem :: "upload_reply \<Rightarrow> error + csv_ref" where
  "uploadCsv_mem reply =
     (case reply of
        NoReply \<Rightarrow> Inl UploadEmpty
      | ReplyError txt \<Rightarrow> Inl (UploadError txt)
      | ReplyData ufsUrl url key \<Rightarrow> Inr \<lparr>csvUrl = nullish_or ufsUrl url, csvKey = key\<rparr>)"

section \<open>The document workers\<close>

text \<open>
  Everything outside a script that decides how a worker runs is in \<open>env\<close>: whether
  each store write and the download succeed, the toolchain, the order in which the page
  handlers settle, the answers of the upload service, the clock, the stack text of an
  error, and (for the in-memory script) what the Python extractor printed: an error, or
  the pages with their text and the statistics as JSON text. \<open>chunk_ok k\<close> says
  whether the \<open>k\<close>-th chunk upsert of the document succeeds.
\<close>

definition PAGE_CHUNK_SIZE :: nat where "PAGE_CHUNK_SIZE = 200"

record env =
  pending_ok :: bool
  download_ok :: bool
  tools :: toolchain
  page_order :: "nat list"
  delete_ok :: bool
  chunk_ok :: "nat \<Rightarrow> bool"
  upload_reply :: upload_reply
  lookup_reply :: lookup_reply
  app_id :: "jsstring option"
  processed_ok :: bool
  failed_ok :: bool
  clock :: jsstring
  stack_text :: "error \<Rightarrow> jsstring"
  extractor :: "error + (nat \<times> jsstring option) list \<times> jsstring"

record args =
  maxPages :: "nat option"
  pageConcurrency :: nat

record stored_doc =
  stored_pages :: "page_result list"
  artifact :: jsstring
  reference :: csv_ref

text \<open>
  The OCR script writes the page rows while it writes the CSV lines:
  \<^verbatim>\<open>
  let chunk = [];
  for (const page of nonEmptyPages) {
    chunk.push({custom_id: customId, page_number: page.page_number, text: page.text});
    await writeCsvLine([...].join(",") + "\n");
    if (chunk.length >= PAGE_CHUNK_SIZE) { await upsertPageChunk(supabase, chunk); chunk = []; }
  }
  await upsertPageChunk(supabase, chunk);   // returns at once on an empty chunk
  \<close>
\<close>

fun write_pages ::
  "(nat \<Rightarrow> bool) \<Rightarrow> jsstring \<Rightarrow> nat \<Rightarrow> page_result list \<Rightarrow> page_result list \<Rightarrow> store \<Rightarrow>
   error option \<times> store" where
  "write_pages ok cid k chunk [] st =
     (if length chunk = 0 then (None, st)
      else if ok k then (None, upsertPageChunk cid chunk st)
      else (Some (StoreError (ascii ''document_pages upsert'')), st))"
| "write_pages ok cid k chunk (page # pages) st =
     (if length (chunk @ [page]) \<ge> PAGE_CHUNK_SIZE then
        (if ok k then write_pages ok cid (k + 1) [] pages (upsertPageChunk cid (chunk @ [page]) st)
         else (Some (StoreError (ascii ''document_pages upsert'')), st))
      else write_pages ok cid k (chunk @ [page]) pages st)"

text \<open>
  The body of the OCR worker's \<open>try\<close>, from the sorted page results on
  (\<open>ocr_store\<close>) and as a whole (\<open>ocr_try\<close>), with the store as it is when the body
  ends or throws.
  \<^verbatim>\<open>
  const emptyPages = pageResults.length - nonEmptyPages.length;
  if (nonEmptyPages.length === 0) {
    throw new Error(`No extractable text found after OCR. totalPages=${totalPages}, ` +
      `processedPages=${pagesToProcess}, emptyPages=${emptyPages}`);
  }
  await clearPages(supabase, customId);
  ... page rows and CSV lines ...
  const { csvUrl, csvKey } = await uploadCsv(utapi, temp.csvPath, csvName, csvCustomId, APP_ID);
  await markDocProcessed(supabase, customId, csvUrl, csvKey);
  \<close>
  Writing the temporary CSV file is taken to succeed.
\<close>

definition ocr_store ::
  "env \<Rightarrow> source_file \<Rightarrow> nat \<Rightarrow> nat \<Rightarrow> page_result list \<Rightarrow> store \<Rightarrow> (error + stored_doc) \<times> store" where
  "ocr_store e file totalPages n pageResults st =
     (let stored = nonEmptyPages pageResults;
          emptyPages = length pageResults - length stored
      in if length stored = 0 then (Inl (NoTextAfterOcr totalPages n emptyPages), st)
         else if \<not> delete_ok e then (Inl (StoreError (ascii ''document_pages delete'')), st)
         else
           (case write_pages (chunk_ok e) (customId file) 0 [] stored (clearPages (customId file) st) of
              (Some err, st') \<Rightarrow> (Inl err, st')
            | (None, st') \<Rightarrow>
                (case uploadCsv (upload_reply e) (lookup_reply e)
                        (customId file @ ascii ''__pages_csv_ocr500'') (app_id e) of
                   Inl err \<Rightarrow> (Inl err, st')
                 | Inr ref \<Rightarrow>
                     if \<not> processed_ok e then (Inl (StoreError (ascii ''mark processed'')), st')
                     else (Inr \<lparr>stored_pages = stored,
                                artifact = csv_file (pdf_name_of file) (customId file) (url_text file) stored,
                                reference = ref\<rparr>,
                           markDocProcessed (clock e) (customId file) (csvUrl ref) (csvKey ref) st'))))"

definition ocr_try :: "env \<Rightarrow> args \<Rightarrow> source_file \<Rightarrow> store \<Rightarrow> ((error + stored_doc) \<times> store) option" where
  "ocr_try e a file st =
     (if \<not> pending_ok e then Some (Inl (StoreError (ascii ''documents upsert pending'')), st)
      else if \<not> download_ok e
      then Some (Inl DownloadError, upsertDocPending (clock e) (docPayload file) st)
      else
        (case getPdfPageCount (tools e) of
           Inl err \<Rightarrow> Some (Inl err, upsertDocPending (clock e) (docPayload file) st)
         | Inr totalPages \<Rightarrow>
             (case ocr_pages (tools e) (pagesToProcess (maxPages a) totalPages)
                     (pageConcurrency a) (page_order e) of
                None \<Rightarrow> None
              | Some (Inl err) \<Rightarrow> Some (Inl err, upsertDocPending (clock e) (docPayload file) st)
              | Some (Inr pageResults) \<Rightarrow>
                  Some (ocr_store e file totalPages (pagesToProcess (maxPages a) totalPages)
                          pageResults (upsertDocPending (clock e) (docPayload file) st)))))"

text \<open>
  \<^verbatim>\<open>
  } catch (error) {
    failed += 1;
    const msg = shortErr(error);
    await upsertDocFailed(supabase, docPayload, msg);   // logs when the write fails
  }
  \<close>
\<close>

definition catch_failed ::
  "nat \<Rightarrow> env \<Rightarrow> source_file \<Rightarrow> (error + stored_doc) \<times> store \<Rightarrow> (error + stored_doc) \<times> store" where
  "catch_failed mx e file r =
     (case r of
        (Inl err, st) \<Rightarrow>
          (Inl err,
           if failed_ok e
           then upsertDocFailed (clock e) (docPayload file) (shortErr mx (stack_text e err)) st
           else st)
      | (Inr d, st) \<Rightarrow> (Inr d, st))"

definition ocr_worker :: "env \<Rightarrow> args \<Rightarrow> source_file \<Rightarrow> store \<Rightarrow> ((error + stored_doc) \<times> store) option" where
  "ocr_worker e a file st = map_option (catch_failed 1800 e file) (ocr_try e a file st)"

text \<open>
  The text-layer script reads the pages one after the other:
  \<^verbatim>\<open>
  for (let page = 1; page <= totalPages; page += 1) {
    const text = await extractPageWithPdftotext(pdfPath, page);   // normalizeText(stdout)
    const nonSpaceChars = text.replace(/\s+/g, "").length;
    if (nonSpaceChars > 0) pages.push({ page_number: page, text }); else emptyPages += 1;
  }
  return { pages, stats: { totalPages, storedPages: pages.length, emptyPages } };
  \<close>
  The pushed objects have no \<open>chars\<close>; the model keeps the count there. The loop runs
  inside \<open>withAnonymousPdfPath\<close>; creating and writing the anonymous file is taken to
  succeed, and \<open>pdfinfo\<close> failing stands for both a failed command and an output without
  a page count.
\<close>

definition extractPageWithPdftotext :: "toolchain \<Rightarrow> nat \<Rightarrow> error + jsstring" where
  "extractPageWithPdftotext tc pageNumber =
     (case pdftotext tc pageNumber of
        None \<Rightarrow> Inl (CommandError (ascii ''pdftotext''))
      | Some stdout \<Rightarrow> Inr (normalizeText stdout))"

fun extract_loop ::
  "toolchain \<Rightarrow> nat list \<Rightarrow> page_result list \<Rightarrow> nat \<Rightarrow> error + page_result list \<times> nat" where
  "extract_loop tc [] pages emptyPages = Inr (pages, emptyPages)"
| "extract_loop tc (page # rest) pages emptyPages =
     (case extractPageWithPdftotext tc page of
        Inl err \<Rightarrow> Inl err
      | Inr txt \<Rightarrow>
          if 0 < length (strip_spaces txt)
          then extract_loop tc rest
                 (pages @ [\<lparr>page_number = page, page_text = txt, chars = length (strip_spaces txt)\<rparr>])
                 emptyPages
          else extract_loop tc rest pages (emptyPages + 1))"

definition extractAllPagesFromBuffer ::
  "toolchain \<Rightarrow> error + page_result list \<times> (nat \<times> nat \<times> nat)" where
  "extractAllPagesFromBuffer tc =
     (case getPdfPageCount tc of
        Inl err \<Rightarrow> Inl err
      | Inr totalPages \<Rightarrow>
          (case extract_loop tc (pageNumbers totalPages) [] 0 of
             Inl err \<Rightarrow> Inl err
           | Inr (pages, emptyPages) \<Rightarrow> Inr (pages, (totalPages, length pages, emptyPages))))"

text \<open>
  \<^verbatim>\<open>
  async function replacePages(supabase, customId, pages) {
    delete().eq("custom_id", customId)                       // throws on error
    for (let i = 0; i < pages.length; i += PAGE_CHUNK_SIZE)
      upsert(pages.slice(i, i + PAGE_CHUNK_SIZE).map(...))   // throws on error
  }
  \<close>
\<close>

function upsert_slices ::
  "(nat \<Rightarrow> bool) \<Rightarrow> jsstring \<Rightarrow> nat \<Rightarrow> page_result list \<Rightarrow> store \<Rightarrow> error option \<times> store" where
  "upsert_slices ok cid k pages st =
     (if pages = [] then (None, st)
      else if ok k
      then upsert_slices ok cid (k + 1) (drop PAGE_CHUNK_SIZE pages)
             (upsertPageChunk cid (take PAGE_CHUNK_SIZE pages) st)
      else (Some (StoreError (ascii ''document_pages upsert'')), st))"
  by pat_completeness auto
termination
  by (relation "measure (\<lambda>(ok, cid, k, pages, st). length pages)")
    (auto simp: PAGE_CHUNK_SIZE_def)

declare upsert_slices.simps [simp del]

definition replacePages ::
  "env \<Rightarrow> jsstring \<Rightarrow> page_result list \<Rightarrow> store \<Rightarrow> error option \<times> store" where
  "replacePages e cid pages st =
     (if \<not> delete_ok e then (Some (StoreError (ascii ''document_pages delete'')), st)
      else upsert_slices (chunk_ok e) cid 0 pages (clearPages cid st))"

text \<open>
  The text-layer and the in-memory worker end in the same way: \<open>replacePages\<close>, the CSV
  built in memory, \<open>uploadCsv\<close>, \<open>markDocProcessed\<close>.
  \<^verbatim>\<open>
  const nonEmptyPages = pages.filter((p) => hasMeaningfulText(p.text));
  if (nonEmptyPages.length === 0) {
    throw new Error(`No extractable text found using pdftotext text-layer extraction. ` +
      `stats=${JSON.stringify(stats)}`);
  }
  \<close>
\<close>

definition store_in_memory ::
  "env \<Rightarrow> source_file \<Rightarrow> page_result list \<Rightarrow> store \<Rightarrow> (error + stored_doc) \<times> store" where
  "store_in_memory e file pages st =
     (case replacePages e (customId file) pages st of
        (Some err, st') \<Rightarrow> (Inl err, st')
      | (None, st') \<Rightarrow>
          (case uploadCsv_mem (upload_reply e) of
             Inl err \<Rightarrow> (Inl err, st')
           | Inr ref \<Rightarrow>
               if \<not> processed_ok e then (Inl (StoreError (ascii ''mark processed'')), st')
               else (Inr \<lparr>stored_pages = pages,
                          artifact = csv_file (pdf_name_of file) (customId file) (url_text file) pages,
                          reference = ref\<rparr>,
                     markDocProcessed (clock e) (customId file) (csvUrl ref) (csvKey ref) st')))"

definition textlayer_try :: "env \<Rightarrow> source_file \<Rightarrow> store \<Rightarrow> (error + stored_doc) \<times> store" where
  "textlayer_try e file st =
     (if \<not> pending_ok e then (Inl (StoreError (ascii ''documents upsert pending'')), st)
      else if \<not> download_ok e
      then (Inl DownloadError, upsertDocPending (clock e) (docPayload file) st)
      else
        (case extractAllPagesFromBuffer (tools e) of
           Inl err \<Rightarrow> (Inl err, upsertDocPending (clock e) (docPayload file) st)
         | Inr (pages, (totalPages, storedPages, emptyPages)) \<Rightarrow>
             if length (filter (\<lambda>p. hasMeaningfulText (page_text p)) pages) = 0
             then (Inl (NoTextLayer totalPages storedPages emptyPages),
                   upsertDocPending (clock e) (docPayload file) st)
             else store_in_memory e file (filter (\<lambda>p. hasMeaningfulText (page_text p)) pages)
                    (upsertDocPending (clock e) (docPayload file) st)))"

definition textlayer_worker :: "env \<Rightarrow> source_file \<Rightarrow> store \<Rightarrow> (error + stored_doc) \<times> store" where
  "textlayer_worker e file st = catch_failed 1600 e file (textlayer_try e file st)"

text \<open>
  The in-memory script takes the pages from the extractor, in the extractor's order:
  \<^verbatim>\<open>
  function hasMeaningfulText(t) { return String(t ?? "").replace(/\s+/g, "").length > 0; }
  const pages = pagesAll
    .map((p) => ({ page_number: p.page_number, text: p.text || "" }))
    .filter((p) => hasMeaningfulText(p.text));
  if (pages.length === 0) {
    throw new Error(`No extractable text after text-layer + OCR fallback. ` +
      `stats=${JSON.stringify(stats)}`);
  }
  \<close>
\<close>

definition hasMeaningfulText_mem :: "jsstring \<Rightarrow> bool" where
  "hasMeaningfulText_mem t \<longleftrightarrow> 0 < length (strip_spaces t)"

definition mem_pages :: "(nat \<times> jsstring option) list \<Rightarrow> page_result list" where
  "mem_pages pagesAll =
     filter (\<lambda>p. hasMeaningfulText_mem (page_text p))
       (map (\<lambda>(n, t). \<lparr>page_number = n, page_text = js_or_str t [],
                        chars = length (strip_spaces (js_or_str t []))\<rparr>) pagesAll)"

definition mem_try :: "env \<Rightarrow> source_file \<Rightarrow> store \<Rightarrow> (error + stored_doc) \<times> store" where
  "mem_try e file st =
     (if \<not> pending_ok e then (Inl (StoreError (ascii ''documents upsert pending'')), st)
      else if \<not> download_ok e
      then (Inl DownloadError, upsertDocPending (clock e) (docPayload file) st)
      else
        (case extractor e of
           Inl err \<Rightarrow> (Inl err, upsertDocPending (clock e) (docPayload file) st)
         | Inr (pagesAll, stats) \<Rightarrow>
             if length (mem_pages pagesAll) = 0
             then (Inl (NoTextInMemory stats), upsertDocPending (clock e) (docPayload file) st)
             else store_in_memory e file (mem_pages pagesAll)
                    (upsertDocPending (clock e) (docPayload file) st)))"

definition mem_worker :: "env \<Rightarrow> source_file \<Rightarrow> store \<Rightarrow> (error + stored_doc) \<times> store" where
  "mem_worker e file st = catch_failed 1600 e file (mem_try e file st)"

text \<open>
  The example of the specification as concrete input: one candidate \<open>A\<close> with two pages;
  page 1 reads "Hello world", page 2 reads nothing in the primary layout and "Page Two"
  in the fallback layout.
\<close>

definition scenario_file :: source_file where
  "scenario_file =
     \<lparr>id_col = 1, ufs_url = Some (ascii ''http://x/a.pdf''), ut_key = None,
      file_name = Some (ascii ''a.pdf''), file_size = None, custom_id = Some (ascii ''A''),
      original_rel_path = None, collection = None, subcollection = None\<rparr>"

definition scenario_tools :: toolchain where
  "scenario_tools =
     \<lparr>pdfinfo = Some 2, pdftoppm = (\<lambda>p. True),
      tesseract = (\<lambda>p psm. if p = 1 then Some (ascii ''Hello world'')
                            else if psm = 6 then Some [] else Some (ascii '' Page Two'')),
      pdftotext = (\<lambda>p. Some [])\<rparr>"

definition scenario_env :: "toolchain \<Rightarrow> nat list \<Rightarrow> env" where
  "scenario_env tc sched =
     \<lparr>pending_ok = True, download_ok = True, tools = tc, page_order = sched, delete_ok = True,
      chunk_ok = (\<lambda>k. True),
      upload_reply = ReplyData (Some (ascii ''https://u/f/k1'')) None (Some (ascii ''k1'')),
      lookup_reply = LookupNone, app_id = None, processed_ok = True, failed_ok = True,
      clock = ascii ''2026-01-01T00:00:00.000Z'', stack_text = (\<lambda>err. ascii ''Error''),
      extractor = Inl (ExtractorError [])\<rparr>"

definition empty_store :: store where
  "empty_store = \<lparr>documents = Map.empty, document_pages = Map.empty\<rparr>"

text \<open>
  Two readings of the store used to state what a status write does to a record: one column
  of the row of a document, and its artifact reference (\<open>csv_url\<close>, \<open>csv_key\<close>),
  \<open>null\<close> when there is no row.
\<close>

definition column_of :: "store \<Rightarrow> jsstring \<Rightarrow> column \<Rightarrow> jsval option" where
  "column_of st k c = map_option (\<lambda>row. row c) (documents st k)"

definition artifact_ref :: "store \<Rightarrow> jsstring \<Rightarrow> jsval \<times> jsval" where
  "artifact_ref st k =
     (case documents st k of None \<Rightarrow> (Null, Null) | Some row \<Rightarrow> (row Col_csv_url, row Col_csv_key))"

text \<open>
  More concrete inputs: a store in which document \<open>A\<close> is processed and has an artifact
  reference, a payload as the manifest script builds it, an environment in which the
  download fails, and command-line arguments.
\<close>

definition processed_row :: doc_row where
  "processed_row c =
     (if c = Col_custom_id then Str (ascii ''A'')
      else if c = Col_status then Str (ascii ''processed'')
      else if c = Col_csv_url then Str (ascii ''https://u/f/k1'')
      else if c = Col_csv_key then Str (ascii ''k1'')
      else Null)"

definition processed_store :: store where
  "processed_store = \<lparr>documents = [ascii ''A'' \<mapsto> processed_row], document_pages = Map.empty\<rparr>"

definition manifest_payload :: payload where
  "manifest_payload =
     [Col_original_relative_path \<mapsto> Str (ascii ''x/a.pdf''), Col_custom_id \<mapsto> Str (ascii ''A''),
      Col_pdf_name \<mapsto> Str (ascii ''a_OCR.pdf''), Col_pdf_url \<mapsto> Str (ascii ''https://app.ufs.sh/f/A''),
      Col_size_bytes \<mapsto> Null, Col_modified_time_iso \<mapsto> Null]"

definition failing_env :: env where
  "failing_env = (scenario_env scenario_tools [])\<lparr>download_ok := False\<rparr>"

definition scenario_args :: args where
  "scenario_args = \<lparr>maxPages = None, pageConcurrency = 2\<rparr>"

text \<open>Writing one page row, the step of a chunk upsert.\<close>

definition put_page :: "jsstring \<Rightarrow> page_result \<Rightarrow> (jsstring \<times> nat \<rightharpoonup> jsstring) \<Rightarrow> (jsstring \<times> nat \<rightharpoonup> jsstring)" where
  "put_page cid p m = m((cid, page_number p) \<mapsto> page_text p)"

text \<open>
  More concrete inputs: a two-page document on which every tool reads only white space,
  run with and without a cap on the pages; the two page records of the example; what the
  in-memory extractor would report for the same documents.
\<close>

definition blank_tools :: toolchain where
  "blank_tools =
     \<lparr>pdfinfo = Some 2, pdftoppm = (\<lambda>p. True), tesseract = (\<lambda>p psm. Some [TAB, LF]),
      pdftotext = (\<lambda>p. Some [FF])\<rparr>"

definition capped_args :: args where
  "capped_args = \<lparr>maxPages = Some 1, pageConcurrency = 1\<rparr>"

definition uncapped_args :: args where
  "uncapped_args = \<lparr>maxPages = None, pageConcurrency = 1\<rparr>"

definition blank_env :: env where
  "blank_env =
     (scenario_env blank_tools [0, 0])
       \<lparr>extractor := Inr ([(1, None), (2, Some [32, LF])], ascii ''{totalPages:2}'')\<rparr>"

definition blank_page :: "nat \<Rightarrow> page_result" where
  "blank_page n = \<lparr>page_number = n, page_text = [], chars = 0\<rparr>"

definition hello_page :: page_result where
  "hello_page = \<lparr>page_number = 1, page_text = ascii ''Hello world'', chars = 10\<rparr>"

definition page_two :: page_result where
  "page_two = \<lparr>page_number = 2, page_text = ascii ''Page Two'', chars = 7\<rparr>"

definition scenario_extracted :: "(nat \<times> jsstring option) list" where
  "scenario_extracted = [(1, Some (ascii ''Hello world'')), (2, Some (ascii ''Page Two''))]"

text \<open>
  Two environments for the in-memory script: one whose extractor lists page 2 before
  page 1, and the example with the extractor listing its two pages in ascending order.
\<close>

definition unsorted_env :: env where
  "unsorted_env =
     (scenario_env scenario_tools [])
       \<lparr>extractor := Inr ([(2, Some (ascii ''a'')), (1, Some (ascii ''b''))], ascii ''{}'')\<rparr>"

definition mem_env :: env where
  "mem_env =
     (scenario_env scenario_tools [1, 0])\<lparr>extractor := Inr (scenario_extracted, ascii ''{}'')\<rparr>"

section \<open>Properties\<close>

subsection \<open>Facts about trimming\<close>

lemma js_trim_subset: "set (js_trim s) \<subseteq> set s"
proof -
  have "set (js_trim s) \<subseteq> set (rev (dropWhile is_js_space s))"
    unfolding js_trim_def using set_dropWhileD by fastforce
  also have "\<dots> \<subseteq> set s"
    using set_dropWhileD by fastforce
  finally show ?thesis .
qed

lemma dropWhile_fixed: "xs = [] \<or> \<not> P (hd xs) \<Longrightarrow> dropWhile P xs = xs"
  by (cases xs) auto

lemma js_trim_idem: "js_trim (js_trim s) = js_trim s"
proof -
  define a where "a = dropWhile is_js_space s"
  define b where "b = dropWhile is_js_space (rev a)"
  have a_hd: "a = [] \<or> \<not> is_js_space (hd a)"
    unfolding a_def by (metis hd_dropWhile)
  have b_hd: "b = [] \<or> \<not> is_js_space (hd b)"
    unfolding b_def by (metis hd_dropWhile)
  have b_last: "b = [] \<or> \<not> is_js_space (last b)"
  proof (cases "b = []")
    case True
    then show ?thesis by simp
  next
    case False
    then have "rev a \<noteq> []" unfolding b_def by auto
    then have "a \<noteq> []" by simp
    have "last b = last (rev a)"
      using False unfolding b_def
      by (metis takeWhile_dropWhile_id last_appendR)
    also have "\<dots> = hd a" using \<open>a \<noteq> []\<close> by (simp add: last_rev)
    finally show ?thesis using a_hd \<open>a \<noteq> []\<close> by simp
  qed
  have rb_hd: "rev b = [] \<or> \<not> is_js_space (hd (rev b))"
    using b_last by (cases "b = []") (simp_all add: hd_rev)
  have t: "js_trim s = rev b"
    by (simp add: js_trim_def a_def b_def)
  have "js_trim (rev b) = rev (dropWhile is_js_space (rev (dropWhile is_js_space (rev b))))"
    by (simp add: js_trim_def)
  also have "dropWhile is_js_space (rev b) = rev b"
    using rb_hd by (rule dropWhile_fixed)
  also have "rev (rev b) = b" by simp
  also have "dropWhile is_js_space b = b"
    using b_hd by (rule dropWhile_fixed)
  finally show ?thesis by (simp add: t)
qed

subsection \<open>Facts about the replacement passes\<close>

lemma remove_nul_fixed: "NUL \<notin> set s \<Longrightarrow> remove_nul s = s"
  by (induction s) (auto simp: remove_nul_def)

lemma ff_to_lf_fixed: "FF \<notin> set s \<Longrightarrow> ff_to_lf s = s"
  by (induction s) (auto simp: ff_to_lf_def)

lemma crlf_to_lf_fixed: "CR \<notin> set s \<Longrightarrow> crlf_to_lf s = s"
  by (induction s rule: crlf_to_lf.induct) auto

lemma cr_to_lf_fixed: "CR \<notin> set s \<Longrightarrow> cr_to_lf s = s"
  by (induction s) (auto simp: cr_to_lf_def)

lemma set_crlf_to_lf: "set (crlf_to_lf s) \<subseteq> set s"
  by (induction s rule: crlf_to_lf.induct) auto

lemma no_nul_remove_nul: "NUL \<notin> set (remove_nul s)"
  by (simp add: remove_nul_def)

lemma no_ff_ff_to_lf: "FF \<notin> set (ff_to_lf s)"
  by (auto simp: ff_to_lf_def FF_def LF_def)

lemma no_nul_ff_to_lf: "NUL \<notin> set s \<Longrightarrow> NUL \<notin> set (ff_to_lf s)"
  by (auto simp: ff_to_lf_def NUL_def LF_def)

lemma no_cr_cr_to_lf: "CR \<notin> set (cr_to_lf s)"
  by (auto simp: cr_to_lf_def CR_def LF_def)

lemma no_nul_cr_to_lf: "NUL \<notin> set s \<Longrightarrow> NUL \<notin> set (cr_to_lf s)"
  by (auto simp: cr_to_lf_def NUL_def LF_def)

lemma no_ff_cr_to_lf: "FF \<notin> set s \<Longrightarrow> FF \<notin> set (cr_to_lf s)"
  by (auto simp: cr_to_lf_def FF_def LF_def)

lemma normalizeText_clean:
  "NUL \<notin> set (normalizeText s) \<and> FF \<notin> set (normalizeText s) \<and> CR \<notin> set (normalizeText s)"
proof -
  let ?t = "cr_to_lf (crlf_to_lf (ff_to_lf (remove_nul s)))"
  have 1: "NUL \<notin> set (crlf_to_lf (ff_to_lf (remove_nul s)))"
    using set_crlf_to_lf no_nul_ff_to_lf [OF no_nul_remove_nul] by blast
  have 2: "FF \<notin> set (crlf_to_lf (ff_to_lf (remove_nul s)))"
    using set_crlf_to_lf no_ff_ff_to_lf by blast
  have "NUL \<notin> set ?t" "FF \<notin> set ?t" "CR \<notin> set ?t"
    using 1 2 by (simp_all add: no_nul_cr_to_lf no_ff_cr_to_lf no_cr_cr_to_lf)
  then show ?thesis
    unfolding normalizeText_def using js_trim_subset by blast
qed

lemma normalizeText_of_clean:
  assumes "NUL \<notin> set s" "FF \<notin> set s" "CR \<notin> set s"
  shows "normalizeText s = js_trim s"
  using assms
  by (simp add: normalizeText_def remove_nul_fixed ff_to_lf_fixed crlf_to_lf_fixed
      cr_to_lf_fixed)

lemma normalizeText_twice: "normalizeText (normalizeText s) = normalizeText s"
proof -
  have "normalizeText (normalizeText s) = js_trim (normalizeText s)"
    using normalizeText_clean [of s] by (simp add: normalizeText_of_clean)
  also have "\<dots> = normalizeText s"
    by (simp add: normalizeText_def js_trim_idem)
  finally show ?thesis .
qed

lemma hasMeaningfulText_normalized:
  "hasMeaningfulText (normalizeText s) \<longleftrightarrow> 0 < length (strip_spaces (normalizeText s))"
  by (simp add: hasMeaningfulText_def normalizeText_twice)

subsection \<open>Idempotence\<close>

text \<open>
  C9. Text normalisation is idempotent: normalising an already normalised string changes
  nothing, for every input string. Consequently the meaningful-text predicate, which
  normalises its argument first, answers the same on a raw string and on its normalised
  form.
\<close>

theorem C9_normalizeText_idempotent:
  "normalizeText (normalizeText s) = normalizeText s \<and>
   hasMeaningfulText (normalizeText s) = hasMeaningfulText s"
  by (simp add: hasMeaningfulText_def normalizeText_twice)

subsection \<open>The work set\<close>

lemma computeWorkSet_no_reprocess:
  "computeWorkSet sourceFiles processedIds False =
     filter (\<lambda>f. truthy (ufs_url f) \<and>
                (case identity f of None \<Rightarrow> True | Some i \<Rightarrow> i = [] \<or> i \<notin> processedIds))
       sourceFiles"
  by (auto simp: computeWorkSet_def withUrl_def keep_file_def truthy_def
      intro!: filter_cong split: option.splits)

lemma computeWorkSet_reprocess:
  "computeWorkSet sourceFiles processedIds True = filter (\<lambda>f. truthy (ufs_url f)) sourceFiles"
  by (simp add: computeWorkSet_def withUrl_def keep_file_def)

lemma computeWorkSet_drops_processed:
  assumes "identity f = Some i" "i \<noteq> []" "i \<in> processedIds"
  shows "f \<notin> set (computeWorkSet sourceFiles processedIds False)"
  using assms by (simp add: computeWorkSet_no_reprocess)

lemma computeWorkSet_keeps_unprocessed:
  assumes "f \<in> set sourceFiles" "truthy (ufs_url f)" "identity f = Some i" "i \<notin> processedIds"
  shows "f \<in> set (computeWorkSet sourceFiles processedIds False)"
  using assms by (simp add: computeWorkSet_no_reprocess)

text \<open>
  C1. With \<open>reprocess = false\<close> the work set must drop every candidate whose identity is
  in the processed set. The OCR and text-layer scripts do (lemmas above). The in-memory
  script does not: a row with no \<open>custom_id\<close> and \<open>ut_key = "K"\<close> is processed and
  recorded under the identity \<open>"K"\<close>, yet with \<open>"K"\<close> in the processed set it is queued
  again, where the OCR script's filter drops it.
\<close>

theorem C1_in_memory_queue_keeps_processed:
  "customId keyed_by_ut_key = ascii ''K'' \<and>
   computeWorkSet_mem [keyed_by_ut_key] {ascii ''K''} False = [keyed_by_ut_key] \<and>
   computeWorkSet [keyed_by_ut_key] {ascii ''K''} False = []"
  by (simp add: computeWorkSet_mem_def computeWorkSet_def withUrl_def keep_file_def
      identity_def customId_def keyed_by_ut_key_def js_or_def js_or_str_def truthy_def
      ascii_def)

text \<open>
  C10. A candidate (a row with a URL, the input of the filter) that has neither a
  \<open>custom_id\<close> nor a \<open>ut_key\<close> is in the work set whatever the processed set and the
  \<open>reprocess\<close> flag are, and its worker names it \<open>granth_<id>\<close>, from the decimal
  digits of its numeric id.
\<close>

theorem C10_unkeyed_candidate_always_queued:
  assumes "file \<in> set (withUrl sourceFiles)"
    and "\<not> truthy (custom_id file)" and "\<not> truthy (ut_key file)"
  shows "file \<in> set (computeWorkSet sourceFiles processedIds reprocess) \<and>
         customId file = ascii ''granth_'' @ string_of_nat (id_col file)"
proof -
  have "\<not> truthy (identity file)"
    using assms(2,3) by (simp add: identity_def js_or_def)
  then have "keep_file reprocess processedIds file"
    by (simp add: keep_file_def)
  then have "file \<in> set (computeWorkSet sourceFiles processedIds reprocess)"
    using assms(1) by (simp add: computeWorkSet_def)
  moreover have "customId file = ascii ''granth_'' @ string_of_nat (id_col file)"
    using assms(2,3)
    by (auto simp: customId_def js_or_def js_or_str_def truthy_def split: option.splits)
  ultimately show ?thesis by simp
qed

theorem C10_unkeyed_candidate_witness:
  "unkeyed \<in> set (withUrl [keyed_by_ut_key, unkeyed]) \<and>
   \<not> truthy (custom_id unkeyed) \<and> \<not> truthy (ut_key unkeyed) \<and>
   unkeyed \<in> set (computeWorkSet [keyed_by_ut_key, unkeyed] {ascii ''K'', ascii ''granth_7''} False) \<and>
   customId unkeyed = ascii ''granth_7''"
proof -
  have a: "unkeyed \<in> set (withUrl [keyed_by_ut_key, unkeyed])"
    by (simp add: withUrl_def unkeyed_def truthy_def ascii_def)
  have b: "\<not> truthy (custom_id unkeyed)" "\<not> truthy (ut_key unkeyed)"
    by (simp_all add: unkeyed_def truthy_def)
  have d: "string_of_nat (id_col unkeyed) = ascii ''7''"
    by (simp add: unkeyed_def string_of_nat.simps ascii_def)
  show ?thesis
    using C10_unkeyed_candidate_always_queued
      [OF a b, of "{ascii ''K'', ascii ''granth_7''}" False] a b d
    by (simp add: ascii_def)
qed

subsection \<open>CSV escaping and parsing\<close>

lemma parse_plain:
  "\<not> needs_quote u \<Longrightarrow>
   parse_loop False f row rows (u @ rest) = parse_loop False (f @ u) row rows rest"
proof (induction u arbitrary: f)
  case Nil
  then show ?case by simp
next
  case (Cons c u)
  then have c: "c \<noteq> DQUOTE" "c \<noteq> COMMA" "c \<noteq> LF" "c \<noteq> CR" and u: "\<not> needs_quote u"
    by (auto simp: needs_quote_def)
  show ?case using Cons.IH [OF u, of "f @ [c]"] c by simp
qed

lemma double_quotes_Cons:
  "double_quotes (c # s) = (if c = DQUOTE then [DQUOTE, DQUOTE] else [c]) @ double_quotes s"
  by (simp add: double_quotes_def)

lemma parse_quoted_body:
  "rest = [] \<or> hd rest \<noteq> DQUOTE \<Longrightarrow>
   parse_loop True f row rows (double_quotes s @ DQUOTE # rest) =
   parse_loop False (f @ s) row rows rest"
proof (induction s arbitrary: f)
  case Nil
  then show ?case by (cases rest) (auto simp: double_quotes_def)
next
  case (Cons c s)
  show ?case
  proof (cases "c = DQUOTE")
    case True
    then show ?thesis using Cons.IH [OF Cons.prems, of "f @ [DQUOTE]"] by (simp add: double_quotes_Cons)
  next
    case False
    then show ?thesis using Cons.IH [OF Cons.prems, of "f @ [c]"] by (simp add: double_quotes_Cons)
  qed
qed

lemma parse_escaped:
  assumes "rest = [] \<or> hd rest \<noteq> DQUOTE"
  shows "parse_loop False f row rows (csvEscape s @ rest) = parse_loop False (f @ s) row rows rest"
proof (cases "needs_quote s")
  case True
  then show ?thesis using parse_quoted_body [OF assms, of f row rows s]
    by (simp add: csvEscape_def)
next
  case False
  then show ?thesis by (simp add: csvEscape_def parse_plain)
qed

lemma comma_not_dquote: "COMMA \<noteq> DQUOTE" "LF \<noteq> DQUOTE" "COMMA \<noteq> LF" "COMMA \<noteq> CR" "LF \<noteq> CR" "LF \<noteq> COMMA"
  by (simp_all add: COMMA_def DQUOTE_def LF_def CR_def)

lemma parse_fields:
  "fs \<noteq> [] \<Longrightarrow>
   parse_loop False [] row rows (join_comma (map csvEscape fs) @ LF # rest) =
   parse_loop False [] [] (rows @ [row @ fs]) rest"
proof (induction fs arbitrary: row rule: join_comma.induct[case_names Nil One More])
  case Nil
  then show ?case by simp
next
  case (One x)
  show ?case
    using parse_escaped [of "LF # rest" "[]" row rows x]
    by (simp add: comma_not_dquote)
next
  case (More x y ys)
  have "parse_loop False [] row rows (join_comma (map csvEscape (x # y # ys)) @ LF # rest) =
        parse_loop False [] row rows (csvEscape x @ (COMMA # join_comma (map csvEscape (y # ys)) @ LF # rest))"
    by simp
  also have "\<dots> = parse_loop False x row rows (COMMA # join_comma (map csvEscape (y # ys)) @ LF # rest)"
    using parse_escaped [of "COMMA # join_comma (map csvEscape (y # ys)) @ LF # rest" "[]" row rows x]
    by (simp add: comma_not_dquote)
  also have "\<dots> = parse_loop False [] (row @ [x]) rows (join_comma (map csvEscape (y # ys)) @ LF # rest)"
    by (simp add: comma_not_dquote)
  also have "\<dots> = parse_loop False [] [] (rows @ [(row @ [x]) @ (y # ys)]) rest"
    using More.IH [of "row @ [x]"] by simp
  finally show ?case by simp
qed

lemma parse_lines:
  "\<forall>r \<in> set rs. r \<noteq> [] \<Longrightarrow>
   parse_loop False [] [] rows (concat (map (\<lambda>r. join_comma (map csvEscape r) @ [LF]) rs)) =
   (rows @ rs, [], [])"
proof (induction rs arbitrary: rows)
  case Nil
  then show ?case by simp
next
  case (Cons r rs)
  then have r: "r \<noteq> []" and rs: "\<forall>r \<in> set rs. r \<noteq> []" by auto
  show ?case
    using parse_fields [OF r, of "[]" rows] Cons.IH [OF rs, of "rows @ [r]"] by simp
qed

lemma digit_plain:
  assumes "n < 10"
  shows "\<not> needs_quote [48 + of_nat n]"
proof -
  have "n \<in> {0, 1, 2, 3, 4, 5, 6, 7, 8, 9}" using assms by auto
  then show ?thesis
    by (auto simp: needs_quote_def DQUOTE_def COMMA_def LF_def CR_def)
qed

lemma needs_quote_append: "needs_quote (a @ b) \<longleftrightarrow> needs_quote a \<or> needs_quote b"
  by (auto simp: needs_quote_def)

lemma string_of_nat_plain: "\<not> needs_quote (string_of_nat n)"
proof (induction n rule: string_of_nat.induct)
  case (1 n)
  show ?case
  proof (cases "n < 10")
    case True
    then show ?thesis
      using digit_plain [of n] by (subst string_of_nat.simps) simp
  next
    case False
    have "n mod 10 < 10" by simp
    then have "\<not> needs_quote [48 + of_nat (n mod 10)]"
      by (rule digit_plain)
    then show ?thesis
      using False 1 by (subst string_of_nat.simps) (simp add: needs_quote_append)
  qed
qed

lemma csvEscape_plain: "\<not> needs_quote s \<Longrightarrow> csvEscape s = s"
  by (simp add: csvEscape_def)

lemma csv_header_as_row: "csv_header = join_comma (map csvEscape csv_header_row) @ [LF]"
  by (simp add: csv_header_def csv_header_row_def csvEscape_def needs_quote_def ascii_def
      DQUOTE_def COMMA_def LF_def CR_def)

lemma csv_line_as_row:
  "csv_line pdfName cid pdfUrl page =
   join_comma (map csvEscape (csv_row pdfName cid pdfUrl page)) @ [LF]"
  by (simp add: csv_line_def csv_row_def csvEscape_plain [OF string_of_nat_plain])

lemma csv_file_as_rows:
  "csv_file pdfName cid pdfUrl pages =
   concat (map (\<lambda>r. join_comma (map csvEscape r) @ [LF])
     (csv_header_row # map (csv_row pdfName cid pdfUrl) pages))"
proof -
  have "csv_line pdfName cid pdfUrl =
        (\<lambda>page. join_comma (map csvEscape (csv_row pdfName cid pdfUrl page)) @ [LF])"
    by (rule ext) (rule csv_line_as_row)
  then show ?thesis
    by (simp add: csv_file_def csv_header_as_row comp_def)
qed

lemma csv_file_starts: "\<exists>rest. csv_file pdfName cid pdfUrl pages = 112 # rest"
  by (simp add: csv_file_def csv_header_def ascii_def)

lemma parseCsvRows_csv_file:
  "parseCsvRows (csv_file pdfName cid pdfUrl pages) =
   csv_header_row # map (csv_row pdfName cid pdfUrl) pages"
proof -
  let ?rows = "csv_header_row # map (csv_row pdfName cid pdfUrl) pages"
  obtain rest where st: "csv_file pdfName cid pdfUrl pages = 112 # rest"
    using csv_file_starts by blast
  have nobom: "(case csv_file pdfName cid pdfUrl pages of [] \<Rightarrow> csv_file pdfName cid pdfUrl pages
                | c # cs \<Rightarrow> if c = BOM then cs else csv_file pdfName cid pdfUrl pages) =
               csv_file pdfName cid pdfUrl pages"
    by (simp add: st BOM_def)
  have ne: "\<forall>r \<in> set ?rows. r \<noteq> []"
    by (auto simp: csv_header_row_def csv_row_def)
  have loop: "parse_loop False [] [] [] (csv_file pdfName cid pdfUrl pages) = (?rows, [], [])"
    using parse_lines [OF ne, of "[]"] by (simp add: csv_file_as_rows)
  have keep: "filter (\<lambda>r. \<not> (length r = 1 \<and> r ! 0 = [])) ?rows = ?rows"
    by (rule filter_True) (auto simp: csv_header_row_def csv_row_def)
  show ?thesis
    using keep by (simp add: parseCsvRows_def nobom loop)
qed

lemma parseCsvRows_escaped_alone:
  "parseCsvRows (csvEscape s) =
     (if s = [] then []
      else if \<not> needs_quote s \<and> hd s = BOM then (if tl s = [] then [] else [[tl s]])
      else [[s]])"
proof (cases "needs_quote s")
  case True
  then have ne: "s \<noteq> []" by (auto simp: needs_quote_def)
  have e: "csvEscape s = DQUOTE # double_quotes s @ [DQUOTE]"
    using True by (simp add: csvEscape_def)
  have "parse_loop False [] [] [] (csvEscape s @ []) = parse_loop False ([] @ s) [] [] []"
    by (rule parse_escaped) simp
  then have loop: "parse_loop False [] [] [] (DQUOTE # double_quotes s @ [DQUOTE]) = ([], [], s)"
    by (simp add: e)
  show ?thesis
    using True ne loop by (simp add: parseCsvRows_def e BOM_def DQUOTE_def)
next
  case False
  have p: "parse_loop False [] [] [] u = ([], [], u)" if "\<not> needs_quote u" for u
    using parse_plain [OF that, of "[]" "[]" "[]" "[]"] by simp
  show ?thesis
  proof (cases s)
    case Nil
    then show ?thesis by (simp add: parseCsvRows_def csvEscape_def needs_quote_def)
  next
    case (Cons c cs)
    have cs: "\<not> needs_quote cs" using False Cons by (auto simp: needs_quote_def)
    show ?thesis
      using False Cons p [OF cs] p [OF False]
      by (auto simp: parseCsvRows_def csvEscape_def)
  qed
qed

text \<open>
  C2 as stated (parsing the escaped field gives the field back, for every string) fails
  on two inputs: the parser strips a leading byte-order mark, so an unquoted field that
  starts with U+FEFF loses it, and a lone empty field is a blank row, which the parser
  drops.
\<close>

theorem C2_round_trip_counterexample:
  "parseCsvRows (csvEscape [BOM, 97]) = [[[97]]] \<and> parseCsvRows (csvEscape []) = []"
  by (simp add: parseCsvRows_escaped_alone needs_quote_def BOM_def DQUOTE_def COMMA_def
      LF_def CR_def)

text \<open>
  C2, amended. \<open>csvEscape\<close> wraps a field in double quotes exactly when it contains a
  double quote, a comma, LF or CR, and then doubles every double quote inside. Parsing
  the escaped field alone gives back the field for every non-empty string, except that
  an unquoted field starting with U+FEFF comes back without it. Parsing a whole
  artifact, the header line and the lines of escaped fields, gives back the header and
  every field of every row exactly, whatever the field values are.
\<close>

theorem C2_csv_escape_round_trip:
  "csvEscape s = (if needs_quote s then [DQUOTE] @ double_quotes s @ [DQUOTE] else s) \<and>
   parseCsvRows (csvEscape s) =
     (if s = [] then []
      else if \<not> needs_quote s \<and> hd s = BOM then (if tl s = [] then [] else [[tl s]])
      else [[s]]) \<and>
   parseCsvRows (csv_file pdfName cid pdfUrl pages) =
     csv_header_row # map (csv_row pdfName cid pdfUrl) pages"
  using parseCsvRows_escaped_alone [of s] parseCsvRows_csv_file [of pdfName cid pdfUrl pages]
  by (simp add: csvEscape_def)

subsection \<open>The bounded-parallelism driver\<close>

lemma take_next_cases:
  assumes "take_next n st = (t, st')"
  shows "next_idx st' = Suc (next_idx st) \<and> tasks st' = tasks st \<and>
         completed st' = completed st \<and> results st' = results st \<and> failed st' = failed st \<and>
         (t = Returned \<and> n \<le> next_idx st \<and> started st' = started st \<or>
          t = Awaiting (next_idx st) \<and> next_idx st < n \<and>
          started st' = started st @ [next_idx st])"
  using assms by (auto simp: take_next_def Let_def split: if_splits)

lemma awaited_update:
  "w < length ts \<Longrightarrow>
   mset (concat (map awaited (ts[w := t]))) + mset (awaited (ts ! w)) =
   mset (concat (map awaited ts)) + mset (awaited t)"
proof (induction ts arbitrary: w)
  case Nil
  then show ?case by simp
next
  case (Cons a ts)
  show ?case
  proof (cases w)
    case 0
    then show ?thesis by simp
  next
    case (Suc v)
    then have "v < length ts" using Cons.prems by simp
    from Cons.IH [OF this] show ?thesis using Suc by (simp add: ac_simps)
  qed
qed

lemma upt_min_Suc:
  "i < n \<Longrightarrow> [0..<min (Suc i) n] = [0..<min i n] @ [i]"
  "n \<le> i \<Longrightarrow> [0..<min (Suc i) n] = [0..<min i n]"
  by (simp_all add: min_def)

lemma pool_inv_init: "pool_inv items worker pool_init"
  by (simp add: pool_inv_def pool_init_def in_flight_def)

lemma pool_inv_spawn:
  assumes "pool_inv items worker st"
  shows "pool_inv items worker (spawn (length items) st)"
proof -
  obtain t st' where tn: "take_next (length items) st = (t, st')" by force
  note c = take_next_cases [OF tn]
  have sp: "spawn (length items) st = st'\<lparr>tasks := tasks st @ [t]\<rparr>"
    using c by (simp add: spawn_def tn)
  from c show ?thesis
  proof (elim conjE disjE)
    assume a: "t = Returned" "length items \<le> next_idx st" "started st' = started st"
      and b: "next_idx st' = Suc (next_idx st)" "tasks st' = tasks st"
        "completed st' = completed st" "results st' = results st" "failed st' = failed st"
    show ?thesis
      using assms a b
      by (auto simp: pool_inv_def sp in_flight_def upt_min_Suc)
  next
    assume a: "t = Awaiting (next_idx st)" "next_idx st < length items"
        "started st' = started st @ [next_idx st]"
      and b: "next_idx st' = Suc (next_idx st)" "tasks st' = tasks st"
        "completed st' = completed st" "results st' = results st" "failed st' = failed st"
    show ?thesis
      using assms a b
      by (auto simp: pool_inv_def sp in_flight_def upt_min_Suc)
  qed
qed

lemma Threw_update:
  "w < length ts \<Longrightarrow> ts ! w \<noteq> Threw \<Longrightarrow> t \<noteq> Threw \<Longrightarrow>
   Threw \<in> set (ts[w := t]) \<longleftrightarrow> Threw \<in> set ts"
  by (metis in_set_conv_nth length_list_update nth_list_update_eq nth_list_update_neq)

lemma Returned_in_update:
  "Returned \<in> set (ts[w := t]) \<Longrightarrow> t = Returned \<or> Returned \<in> set ts"
  using set_update_subset_insert by fastforce

lemma pool_inv_settle:
  assumes inv: "pool_inv items worker st"
  shows "pool_inv items worker (settle items worker st w)"
proof (cases "w < length (tasks st)")
  case False
  then show ?thesis using inv by (simp add: settle_def)
next
  case w: True
  have i1: "started st = [0..<min (next_idx st) (length items)]"
    and i2: "Returned \<in> set (tasks st) \<Longrightarrow> length items < next_idx st"
    and i3: "mset (completed st) + mset (in_flight st) + mset (failed st) = mset (started st)"
    and i4: "Threw \<in> set (tasks st) \<longleftrightarrow> failed st \<noteq> []"
    and i5: "map Some (results st) = map (\<lambda>i. worker (items ! i) i) (completed st)"
    and i6: "\<forall>i \<in> set (failed st). worker (items ! i) i = None"
    using inv unfolding pool_inv_def by blast+
  show ?thesis
  proof (cases "tasks st ! w")
    case Returned
    then show ?thesis using inv w by (simp add: settle_def)
  next
    case Threw
    then show ?thesis using inv w by (simp add: settle_def)
  next
    case (Awaiting idx)
    have E: "add_mset idx (mset (concat (map awaited ((tasks st)[w := t])))) =
             mset (in_flight st) + mset (awaited t)" for t
      using awaited_update [OF w, of t] Awaiting by (simp add: in_flight_def)
    show ?thesis
    proof (cases "worker (items ! idx) idx")
      case None
      have s: "settle items worker st w =
               st\<lparr>tasks := (tasks st)[w := Threw], failed := failed st @ [idx]\<rparr>"
        using w Awaiting None by (simp add: settle_def)
      have thr: "Threw \<in> set ((tasks st)[w := Threw])"
        using w by (simp add: set_update_memI)
      have ret: "Returned \<in> set ((tasks st)[w := Threw]) \<Longrightarrow> Returned \<in> set (tasks st)"
        using Returned_in_update by fastforce
      have E': "mset (in_flight st) = add_mset idx (mset (concat (map awaited ((tasks st)[w := Threw]))))"
        using E [of Threw] by simp
      have I3: "mset (completed st) + mset (concat (map awaited ((tasks st)[w := Threw]))) +
                mset (failed st @ [idx]) = mset (started st)"
        using i3 unfolding E' by simp
      show ?thesis
        unfolding pool_inv_def s using i1 i2 i5 i6 thr ret I3 None by (simp add: in_flight_def)
    next
      case (Some r)
      let ?st1 = "st\<lparr>completed := completed st @ [idx], results := results st @ [r]\<rparr>"
      obtain t st' where tn: "take_next (length items) ?st1 = (t, st')" by force
      note c = take_next_cases [OF tn]
      have s: "settle items worker st w = st'\<lparr>tasks := (tasks st)[w := t]\<rparr>"
        using w Awaiting Some tn c by (simp add: settle_def)
      have tne: "t \<noteq> Threw" using c by auto
      have I4: "Threw \<in> set ((tasks st)[w := t]) \<longleftrightarrow> failed st' \<noteq> []"
        using Threw_update [OF w _ tne] Awaiting i4 c by simp
      have I5: "map Some (results st') = map (\<lambda>i. worker (items ! i) i) (completed st')"
        using i5 c Some by simp
      have I6: "\<forall>i \<in> set (failed st'). worker (items ! i) i = None"
        using i6 c by simp
      have cmp: "mset (completed st') = add_mset idx (mset (completed st))"
        using c by simp
      have fl: "failed st' = failed st" using c by simp
      have nx: "next_idx st' = Suc (next_idx st)" using c by simp
      from c have "t = Returned \<and> length items \<le> next_idx st \<and> started st' = started st \<or>
          t = Awaiting (next_idx st) \<and> next_idx st < length items \<and>
          started st' = started st @ [next_idx st]"
        by simp
      then show ?thesis
      proof (elim conjE disjE)
        assume a: "t = Returned" "length items \<le> next_idx st" "started st' = started st"
        have E': "mset (in_flight st) = add_mset idx (mset (concat (map awaited ((tasks st)[w := t]))))"
          using E [of Returned] a by simp
        have I1: "started st' = [0..<min (next_idx st') (length items)]"
          using i1 a nx by (simp add: upt_min_Suc)
        have I2: "Returned \<in> set ((tasks st)[w := t]) \<Longrightarrow> length items < next_idx st'"
          using a nx by simp
        have I3: "mset (completed st') + mset (concat (map awaited ((tasks st)[w := t]))) +
                  mset (failed st') = mset (started st')"
          using i3 unfolding cmp fl a(3) E' by simp
        show ?thesis
          unfolding pool_inv_def s using I1 I2 I3 I4 I5 I6 by (simp add: in_flight_def)
      next
        assume a: "t = Awaiting (next_idx st)" "next_idx st < length items"
            "started st' = started st @ [next_idx st]"
        have E': "add_mset idx (mset (concat (map awaited ((tasks st)[w := t])))) =
                  add_mset (next_idx st) (mset (in_flight st))"
          using E [of t] a by simp
        have stm: "mset (started st') = add_mset (next_idx st) (mset (started st))"
          using a by simp
        have I1: "started st' = [0..<min (next_idx st') (length items)]"
          using i1 a nx by (simp add: upt_min_Suc)
        have I2: "Returned \<in> set ((tasks st)[w := t]) \<Longrightarrow> length items < next_idx st'"
          using Returned_in_update [of "tasks st" w t] i2 a nx by auto
        have "mset (completed st') + mset (concat (map awaited ((tasks st)[w := t]))) +
                  mset (failed st') =
              mset (completed st) + add_mset idx (mset (concat (map awaited ((tasks st)[w := t])))) +
                  mset (failed st)"
          unfolding cmp fl by simp
        also have "\<dots> = add_mset (next_idx st)
                    (mset (completed st) + mset (in_flight st) + mset (failed st))"
          unfolding E' by simp
        finally have I3: "mset (completed st') + mset (concat (map awaited ((tasks st)[w := t]))) +
                  mset (failed st') = mset (started st')"
          unfolding i3 stm .
        show ?thesis
          unfolding pool_inv_def s using I1 I2 I3 I4 I5 I6 by (simp add: in_flight_def)
      qed
    qed
  qed
qed

lemma pool_inv_spawns: "pool_inv items worker ((spawn (length items) ^^ k) pool_init)"
  by (induction k) (simp_all add: pool_inv_init pool_inv_spawn)

lemma pool_inv_foldl:
  "pool_inv items worker st \<Longrightarrow> pool_inv items worker (foldl (settle items worker) st schedule)"
  by (induction schedule arbitrary: st) (simp_all add: pool_inv_settle)

lemma pool_inv_run: "pool_inv items worker (runConcurrent items c worker schedule)"
  unfolding runConcurrent_def by (rule pool_inv_foldl) (rule pool_inv_spawns)

lemma length_tasks_spawn: "length (tasks (spawn n st)) = Suc (length (tasks st))"
  by (simp add: spawn_def take_next_def Let_def)

lemma length_tasks_spawns: "length (tasks ((spawn n ^^ k) st)) = k + length (tasks st)"
  by (induction k) (simp_all add: length_tasks_spawn)

lemma length_tasks_settle: "length (tasks (settle items worker st w)) = length (tasks st)"
  by (simp add: settle_def take_next_def Let_def split: task.splits option.splits)

lemma length_tasks_foldl:
  "length (tasks (foldl (settle items worker) st schedule)) = length (tasks st)"
  by (induction schedule arbitrary: st) (simp_all add: length_tasks_settle)

lemma length_tasks_run:
  "length (tasks (runConcurrent items c worker schedule)) = min c (length items)"
  by (simp add: runConcurrent_def length_tasks_foldl length_tasks_spawns pool_init_def)

lemma length_awaited: "length (concat (map awaited ts)) \<le> length ts"
proof (induction ts)
  case Nil
  then show ?case by simp
next
  case (Cons a ts)
  then show ?case by (cases a) simp_all
qed

lemma in_flight_bound:
  "length (in_flight (runConcurrent items c worker schedule)) \<le> min c (length items)"
  using length_awaited [of "tasks (runConcurrent items c worker schedule)"]
  by (simp add: in_flight_def length_tasks_run)

lemma all_Returned_awaited: "list_all (\<lambda>t. t = Returned) ts \<Longrightarrow> concat (map awaited ts) = []"
  by (induction ts) auto

lemma promise_Fulfilled:
  "promise_all ts = Fulfilled \<longleftrightarrow> Threw \<notin> set ts \<and> list_all (\<lambda>t. t = Returned) ts"
  by (auto simp: promise_all_def)

lemma fulfilled_run:
  assumes f: "promise_all (tasks (runConcurrent items c worker schedule)) = Fulfilled"
    and c: "0 < c"
  shows "started (runConcurrent items c worker schedule) = [0..<length items]"
    and "mset (completed (runConcurrent items c worker schedule)) = mset [0..<length items]"
    and "in_flight (runConcurrent items c worker schedule) = []"
    and "failed (runConcurrent items c worker schedule) = []"
    and "map Some (results (runConcurrent items c worker schedule)) =
         map (\<lambda>i. worker (items ! i) i) (completed (runConcurrent items c worker schedule))"
proof -
  let ?st = "runConcurrent items c worker schedule"
  have inv: "pool_inv items worker ?st" by (rule pool_inv_run)
  have i1: "started ?st = [0..<min (next_idx ?st) (length items)]"
    and i2: "Returned \<in> set (tasks ?st) \<Longrightarrow> length items < next_idx ?st"
    and i3: "mset (completed ?st) + mset (in_flight ?st) + mset (failed ?st) = mset (started ?st)"
    and i4: "Threw \<in> set (tasks ?st) \<longleftrightarrow> failed ?st \<noteq> []"
    and i5: "map Some (results ?st) = map (\<lambda>i. worker (items ! i) i) (completed ?st)"
    using inv unfolding pool_inv_def by blast+
  have nt: "Threw \<notin> set (tasks ?st)" and ar: "list_all (\<lambda>t. t = Returned) (tasks ?st)"
    using f by (simp_all add: promise_Fulfilled)
  show fl: "failed ?st = []" using nt i4 by simp
  show inf: "in_flight ?st = []" using ar by (simp add: in_flight_def all_Returned_awaited)
  show st: "started ?st = [0..<length items]"
  proof (cases "length items = 0")
    case True
    then show ?thesis using i1 by simp
  next
    case False
    then have "0 < min c (length items)" using c by simp
    then have "0 < length (tasks ?st)" unfolding length_tasks_run .
    then have "tasks ?st \<noteq> []" by simp
    then obtain t ts where "tasks ?st = t # ts" by (cases "tasks ?st") auto
    then have "Returned \<in> set (tasks ?st)" using ar by auto
    then show ?thesis using i1 i2 by simp
  qed
  show "mset (completed ?st) = mset [0..<length items]"
    using i3 unfolding fl inf st by simp
  show "map Some (results ?st) = map (\<lambda>i. worker (items ! i) i) (completed ?st)" by (rule i5)
qed


lemma promise_Rejected: "promise_all ts = Rejected \<longleftrightarrow> Threw \<in> set ts"
  by (auto simp: promise_all_def)

lemma not_all_Returned_awaited:
  "Threw \<notin> set ts \<Longrightarrow> \<not> list_all (\<lambda>t. t = Returned) ts \<Longrightarrow> concat (map awaited ts) \<noteq> []"
proof (induction ts)
  case Nil
  then show ?case by simp
next
  case (Cons a ts)
  then show ?case by (cases a) auto
qed

lemma promise_Pending: "promise_all ts = Pending \<Longrightarrow> concat (map awaited ts) \<noteq> []"
  using not_all_Returned_awaited by (auto simp: promise_all_def split: if_splits)

lemma completed_ok:
  assumes "promise_all (tasks (runConcurrent items c worker schedule)) = Fulfilled" "0 < c"
    "i < length items"
  shows "worker (items ! i) i \<noteq> None"
proof -
  let ?st = "runConcurrent items c worker schedule"
  have "i \<in> set (completed ?st)"
    using fulfilled_run(2) [OF assms(1,2)] assms(3) by (metis atLeastLessThan_iff mset_eq_setD set_upt zero_le)
  then have "worker (items ! i) i \<in> set (map Some (results ?st))"
    unfolding fulfilled_run(5) [OF assms(1,2)] by auto
  then show ?thesis by auto
qed

lemma runConcurrent_snoc:
  "runConcurrent items c worker (schedule @ [w]) =
   settle items worker (runConcurrent items c worker schedule) w"
  by (simp add: runConcurrent_def)

text \<open>
  A task whose handler completes takes the next index of the cursor, whether or not
  another task has thrown before: a rejection cancels nothing.
\<close>

lemma runConcurrent_keeps_pulling:
  assumes "w < length (tasks (runConcurrent items c worker schedule))"
    and "tasks (runConcurrent items c worker schedule) ! w = Awaiting idx"
    and "worker (items ! idx) idx = Some r"
    and "next_idx (runConcurrent items c worker schedule) < length items"
  shows "tasks (runConcurrent items c worker (schedule @ [w])) =
           (tasks (runConcurrent items c worker schedule))
             [w := Awaiting (next_idx (runConcurrent items c worker schedule))]"
  using assms by (simp add: runConcurrent_snoc settle_def take_next_def Let_def)

text \<open>
  C8 as stated fails when a handler rejects. With one task and two items, the handler of
  item 0 rejecting ends the only task: item 1 is never started and nothing is in flight.
  With two tasks and three items, the same rejection rejects the driver while the handler
  of item 1 is still in flight: completion does not wait for it.
\<close>

theorem C8_failure_counterexample:
  "started (runConcurrent [10, 20] 1 fail_first [0]) = [0] \<and>
   in_flight (runConcurrent [10, 20] 1 fail_first [0]) = [] \<and>
   promise_all (tasks (runConcurrent [10, 20] 1 fail_first [0])) = Rejected \<and>
   promise_all (tasks (runConcurrent [10, 20, 30] 2 fail_first [0])) = Rejected \<and>
   in_flight (runConcurrent [10, 20, 30] 2 fail_first [0]) = [1]"
  by code_simp

text \<open>
  C8, amended. In every state of every run: at most \<open>min concurrency (length items)\<close>
  handlers are in flight; the handlers started so far are those of the indices
  \<open>0, 1, 2, \<dots>\<close> in cursor order, each once; with at least one task, the driver is
  fulfilled only when every index was started, every handler completed without rejecting
  and none is in flight; while the driver is pending some handler is in flight; the
  driver is rejected exactly when some handler rejected; and when the handler a task
  awaits rejects, that task throws and takes no further index, while the cursor and the
  other tasks are left as they are (nothing is cancelled).
\<close>

theorem C8_bounded_pool:
  "length (in_flight (runConcurrent items c worker schedule)) \<le> min c (length items) \<and>
   started (runConcurrent items c worker schedule) =
     [0..<length (started (runConcurrent items c worker schedule))] \<and>
   length (started (runConcurrent items c worker schedule)) \<le> length items \<and>
   (0 < c \<longrightarrow> promise_all (tasks (runConcurrent items c worker schedule)) = Fulfilled \<longrightarrow>
      started (runConcurrent items c worker schedule) = [0..<length items] \<and>
      mset (completed (runConcurrent items c worker schedule)) = mset [0..<length items] \<and>
      in_flight (runConcurrent items c worker schedule) = [] \<and>
      (\<forall>i<length items. worker (items ! i) i \<noteq> None)) \<and>
   (promise_all (tasks (runConcurrent items c worker schedule)) = Pending \<longrightarrow>
      in_flight (runConcurrent items c worker schedule) \<noteq> []) \<and>
   (promise_all (tasks (runConcurrent items c worker schedule)) = Rejected \<longleftrightarrow>
      failed (runConcurrent items c worker schedule) \<noteq> []) \<and>
   (\<forall>i \<in> set (failed (runConcurrent items c worker schedule)). worker (items ! i) i = None) \<and>
   (w < length (tasks (runConcurrent items c worker schedule)) \<longrightarrow>
    tasks (runConcurrent items c worker schedule) ! w = Awaiting idx \<longrightarrow>
    worker (items ! idx) idx = None \<longrightarrow>
      tasks (runConcurrent items c worker (schedule @ [w])) =
        (tasks (runConcurrent items c worker schedule))[w := Threw] \<and>
      next_idx (runConcurrent items c worker (schedule @ [w])) =
        next_idx (runConcurrent items c worker schedule) \<and>
      started (runConcurrent items c worker (schedule @ [w])) =
        started (runConcurrent items c worker schedule))"
proof -
  let ?st = "runConcurrent items c worker schedule"
  have inv: "pool_inv items worker ?st" by (rule pool_inv_run)
  have i1: "started ?st = [0..<min (next_idx ?st) (length items)]"
    and i4: "Threw \<in> set (tasks ?st) \<longleftrightarrow> failed ?st \<noteq> []"
    and i6: "\<forall>i \<in> set (failed ?st). worker (items ! i) i = None"
    using inv unfolding pool_inv_def by blast+
  have len: "length (started ?st) = min (next_idx ?st) (length items)"
    by (subst i1) simp
  have a: "started ?st = [0..<length (started ?st)]" unfolding len by (rule i1)
  have b: "length (started ?st) \<le> length items" unfolding len by simp
  have d: "promise_all (tasks ?st) = Pending \<longrightarrow> in_flight ?st \<noteq> []"
    using promise_Pending by (auto simp: in_flight_def)
  have e: "promise_all (tasks ?st) = Rejected \<longleftrightarrow> failed ?st \<noteq> []"
    using i4 by (simp add: promise_Rejected)
  have g: "tasks (runConcurrent items c worker (schedule @ [w])) = (tasks ?st)[w := Threw] \<and>
           next_idx (runConcurrent items c worker (schedule @ [w])) = next_idx ?st \<and>
           started (runConcurrent items c worker (schedule @ [w])) = started ?st"
    if "w < length (tasks ?st)" "tasks ?st ! w = Awaiting idx" "worker (items ! idx) idx = None"
    using that by (simp add: runConcurrent_snoc settle_def)
  show ?thesis
    using in_flight_bound [of items c worker schedule] a b d e i6 g
      fulfilled_run(1,2,3) [of items c worker schedule]
      completed_ok [of items c worker schedule]
    by blast
qed

theorem C8_bounded_pool_witness:
  "(0::nat) < 2 \<and>
   promise_all (tasks (runConcurrent [10, 20, 30] 2 ok_worker [1, 0, 1, 0])) = Fulfilled \<and>
   started (runConcurrent [10, 20, 30] 2 ok_worker [1, 0, 1, 0]) = [0, 1, 2] \<and>
   mset (completed (runConcurrent [10, 20, 30] 2 ok_worker [1, 0, 1, 0])) = mset [0, 1, 2] \<and>
   promise_all (tasks (runConcurrent [10, 20, 30] 2 ok_worker [1, 0])) = Pending \<and>
   in_flight (runConcurrent [10, 20, 30] 2 ok_worker [1, 0]) \<noteq> [] \<and>
   failed (runConcurrent [10, 20, 30] 2 fail_first [0]) \<noteq> [] \<and>
   promise_all (tasks (runConcurrent [10, 20, 30] 2 fail_first [0])) = Rejected \<and>
   (0::nat) < length (tasks (runConcurrent [10, 20, 30] 2 fail_first [])) \<and>
   tasks (runConcurrent [10, 20, 30] 2 fail_first []) ! 0 = Awaiting 0 \<and>
   fail_first ([10, 20, 30] ! 0) 0 = None \<and>
   tasks (runConcurrent [10, 20, 30] 2 fail_first ([] @ [0])) =
     (tasks (runConcurrent [10, 20, 30] 2 fail_first []))[0 := Threw]"
proof -
  have s: "(0::nat) < length (tasks (runConcurrent [10, 20, 30] 2 fail_first []))"
    "tasks (runConcurrent [10, 20, 30] 2 fail_first []) ! 0 = Awaiting 0"
    "fail_first ([10, 20, 30] ! 0) 0 = None"
    by code_simp+
  have f: "promise_all (tasks (runConcurrent [10, 20, 30] 2 ok_worker [1, 0, 1, 0])) = Fulfilled"
    by code_simp
  have p: "promise_all (tasks (runConcurrent [10, 20, 30] 2 ok_worker [1, 0])) = Pending"
    by code_simp
  have r: "failed (runConcurrent [10, 20, 30] 2 fail_first [0]) \<noteq> []"
    by code_simp
  have t: "tasks (runConcurrent [10, 20, 30] 2 fail_first ([] @ [0])) =
     (tasks (runConcurrent [10, 20, 30] 2 fail_first []))[0 := Threw]"
    using s C8_bounded_pool [of "[10, 20, 30]" 2 fail_first "[]" 0 0] by blast
  have u: "(0::nat) < 2 \<and>
     promise_all (tasks (runConcurrent [10, 20, 30] 2 ok_worker [1, 0, 1, 0])) = Fulfilled \<and>
     started (runConcurrent [10, 20, 30] 2 ok_worker [1, 0, 1, 0]) = [0, 1, 2] \<and>
     mset (completed (runConcurrent [10, 20, 30] 2 ok_worker [1, 0, 1, 0])) = mset [0, 1, 2] \<and>
     promise_all (tasks (runConcurrent [10, 20, 30] 2 ok_worker [1, 0])) = Pending \<and>
     in_flight (runConcurrent [10, 20, 30] 2 ok_worker [1, 0]) \<noteq> [] \<and>
     failed (runConcurrent [10, 20, 30] 2 fail_first [0]) \<noteq> [] \<and>
     promise_all (tasks (runConcurrent [10, 20, 30] 2 fail_first [0])) = Rejected"
    using f p r
      C8_bounded_pool [of "[10, 20, 30]" 2 ok_worker "[1, 0, 1, 0]"]
      C8_bounded_pool [of "[10, 20, 30]" 2 ok_worker "[1, 0]"]
      C8_bounded_pool [of "[10, 20, 30]" 2 fail_first "[0]"]
    by (simp add: eval_nat_numeral)
  show ?thesis using s t u by blast
qed

subsection \<open>The OCR fallback\<close>


lemma runTesseract_normalized:
  "runTesseract tc img psm = Inr txt \<Longrightarrow> \<exists>out. txt = normalizeText out"
  by (auto simp: runTesseract_def split: option.splits)



subsection \<open>Upload conflicts\<close>

text \<open>The uploader of the in-memory and text-layer scripts throws on every error.\<close>

lemma uploadCsv_mem_raises: "uploadCsv_mem (ReplyError txt) = Inl (UploadError txt)"
  by (simp add: uploadCsv_mem_def)

text \<open>
  C5 as stated fails for the uploader of the in-memory and text-layer scripts: it has no
  key and no lookup, and an error of the store that reports an existing key is thrown as
  any other.
\<close>

theorem C5_keyless_upload_counterexample:
  "mentions_conflict (ascii ''customId already exists'') \<and>
   uploadCsv_mem (ReplyError (ascii ''customId already exists'')) =
     Inl (UploadError (ascii ''customId already exists''))"
  by code_simp

text \<open>
  C5, amended, for the uploader of the OCR script, which uploads under a key derived from
  the identity. When the store answers with an error (a conflict or any other) and the
  lookup by key yields an entry with a URL or a key, that reference is returned; an
  upload error is thrown only when the lookup yields no such entry (and then only when
  the error text does not report a conflict or no application id is configured:
  otherwise the URL is built from the application id and the key).
\<close>

theorem C5_conflict_resolved_by_lookup:
  "(truthy url \<or> truthy key \<longrightarrow>
      uploadCsv (ReplyError txt) (LookupHit url key) csvCustomId appId =
        Inr \<lparr>csvUrl = nullish_or url (app_url appId csvCustomId), csvKey = key\<rparr>) \<and>
   (uploadCsv (ReplyError txt) lookup csvCustomId appId = Inl err \<longrightarrow>
      resolve_existing lookup csvCustomId appId = None \<and>
      \<not> (mentions_conflict txt \<and> truthy appId) \<and> err = UploadError (shortErr 1800 txt)) \<and>
   (resolve_existing lookup csvCustomId appId = None \<longrightarrow>
    mentions_conflict txt \<longrightarrow> truthy appId \<longrightarrow>
      uploadCsv (ReplyError txt) lookup csvCustomId appId =
        Inr \<lparr>csvUrl = app_url appId csvCustomId, csvKey = None\<rparr>) \<and>
   (resolve_existing lookup csvCustomId appId = None \<longleftrightarrow>
      (\<forall>u k. lookup = LookupHit u k \<longrightarrow> \<not> truthy u \<and> \<not> truthy k))"
  by (cases lookup) (auto simp: uploadCsv_def resolve_existing_def split: option.splits if_splits)

theorem C5_conflict_resolved_by_lookup_witness:
  "truthy (Some (ascii ''https://u/f/k1'')) \<and>
   uploadCsv (ReplyError (ascii ''customId already exists''))
     (LookupHit (Some (ascii ''https://u/f/k1'')) (Some (ascii ''k1''))) (ascii ''A__pages_csv_ocr500'') None =
     Inr \<lparr>csvUrl = nullish_or (Some (ascii ''https://u/f/k1'')) (app_url None (ascii ''A__pages_csv_ocr500'')),
          csvKey = Some (ascii ''k1'')\<rparr> \<and>
   uploadCsv (ReplyError (ascii ''boom'')) LookupThrows (ascii ''A__pages_csv_ocr500'') None =
     Inl (UploadError (ascii ''boom'')) \<and>
   resolve_existing LookupThrows (ascii ''A__pages_csv_ocr500'') None = None"
proof -
  have t: "truthy (Some (ascii ''https://u/f/k1''))"
    by (simp add: truthy_def ascii_def)
  have u: "uploadCsv (ReplyError (ascii ''boom'')) LookupThrows (ascii ''A__pages_csv_ocr500'') None =
     Inl (UploadError (ascii ''boom''))"
    by (simp add: uploadCsv_def resolve_existing_def truthy_def shortErr_def ascii_def)
  have a: "uploadCsv (ReplyError (ascii ''customId already exists''))
     (LookupHit (Some (ascii ''https://u/f/k1'')) (Some (ascii ''k1''))) (ascii ''A__pages_csv_ocr500'') None =
     Inr \<lparr>csvUrl = nullish_or (Some (ascii ''https://u/f/k1'')) (app_url None (ascii ''A__pages_csv_ocr500'')),
          csvKey = Some (ascii ''k1'')\<rparr>"
    using t C5_conflict_resolved_by_lookup [of "Some (ascii ''https://u/f/k1'')" "Some (ascii ''k1'')"
        "ascii ''customId already exists''" "ascii ''A__pages_csv_ocr500''" None LookupThrows DownloadError]
    by blast
  have b: "resolve_existing LookupThrows (ascii ''A__pages_csv_ocr500'') None = None"
    using u C5_conflict_resolved_by_lookup [of None None "ascii ''boom''" "ascii ''A__pages_csv_ocr500''" None
        LookupThrows "UploadError (ascii ''boom'')"]
    by blast
  show ?thesis using t u a b by blast
qed

subsection \<open>The failed record\<close>

lemma docPayload_key: "docPayload file Col_custom_id = Some (Str (customId file))"
  by (simp add: docPayload_def)

lemma docPayload_no_ref: "docPayload file Col_csv_url = None" "docPayload file Col_csv_key = None"
  by (simp_all add: docPayload_def)

lemma upsertDocFailed_row:
  "column_of (upsertDocFailed now (docPayload file) msg st) (customId file) Col_status =
     Some (Str (ascii ''failed'')) \<and>
   column_of (upsertDocFailed now (docPayload file) msg st) (customId file) Col_error = Some (Str msg) \<and>
   artifact_ref (upsertDocFailed now (docPayload file) msg st) (customId file) =
     artifact_ref st (customId file)"
  by (simp add: upsertDocFailed_def upsert_row_def docPayload_key docPayload_no_ref
      column_of_def artifact_ref_def split: option.splits)

lemma upsertDocPending_ref:
  "artifact_ref (upsertDocPending now (docPayload file) st) (customId file) =
     artifact_ref st (customId file)"
  by (simp add: upsertDocPending_def upsert_row_def docPayload_key docPayload_no_ref
      artifact_ref_def split: option.splits)

lemma upsertPageChunk_documents: "documents (upsertPageChunk cid chunk st) = documents st"
  by (simp add: upsertPageChunk_def)

lemma clearPages_documents: "documents (clearPages cid st) = documents st"
  by (simp add: clearPages_def)

lemma write_pages_documents:
  "write_pages ok cid k chunk pages st = (r, st') \<Longrightarrow> documents st' = documents st"
  by (induction ok cid k chunk pages st rule: write_pages.induct)
    (auto simp: upsertPageChunk_documents split: if_splits)

lemma upsert_slices_documents:
  "upsert_slices ok cid k pages st = (r, st') \<Longrightarrow> documents st' = documents st"
proof (induction ok cid k pages st rule: upsert_slices.induct)
  case (1 ok cid k pages st)
  then show ?case
    by (subst (asm) (2) upsert_slices.simps) (auto simp: upsertPageChunk_documents split: if_splits)
qed

lemma artifact_ref_cong: "documents st' = documents st \<Longrightarrow> artifact_ref st' k = artifact_ref st k"
  by (simp add: artifact_ref_def)

lemma ocr_store_failure_ref:
  assumes "ocr_store e file totalPages n pageResults st = (Inl err, st')"
  shows "documents st' = documents st"
  using assms
  by (auto simp: ocr_store_def Let_def clearPages_documents
      split: if_splits prod.splits option.splits sum.splits dest!: write_pages_documents)

lemma ocr_try_failure_ref:
  assumes "ocr_try e a file st = Some (Inl err, st')"
  shows "artifact_ref st' (customId file) = artifact_ref st (customId file)"
proof -
  let ?p = "upsertDocPending (clock e) (docPayload file) st"
  from assms consider "st' = st" | "st' = ?p"
    | totalPages pageResults where
      "ocr_store e file totalPages (pagesToProcess (maxPages a) totalPages) pageResults ?p = (Inl err, st')"
    by (auto simp: ocr_try_def split: if_splits sum.splits option.splits)
  then show ?thesis
  proof cases
    case 1
    then show ?thesis by simp
  next
    case 2
    then show ?thesis by (simp add: upsertDocPending_ref)
  next
    case 3
    then have "documents st' = documents ?p" by (rule ocr_store_failure_ref)
    then have "artifact_ref st' (customId file) = artifact_ref ?p (customId file)"
      by (rule artifact_ref_cong)
    then show ?thesis by (simp add: upsertDocPending_ref)
  qed
qed

lemma store_in_memory_failure_ref:
  assumes "store_in_memory e file pages st = (Inl err, st')"
  shows "documents st' = documents st"
  using assms
  by (auto simp: store_in_memory_def replacePages_def clearPages_documents
      split: if_splits prod.splits option.splits sum.splits dest!: upsert_slices_documents)

lemma textlayer_try_failure_ref:
  assumes "textlayer_try e file st = (Inl err, st')"
  shows "artifact_ref st' (customId file) = artifact_ref st (customId file)"
proof -
  let ?p = "upsertDocPending (clock e) (docPayload file) st"
  from assms consider "st' = st" | "st' = ?p"
    | pages where "store_in_memory e file pages ?p = (Inl err, st')"
    by (auto simp: textlayer_try_def split: if_splits sum.splits prod.splits)
  then show ?thesis
  proof cases
    case 1
    then show ?thesis by simp
  next
    case 2
    then show ?thesis by (simp add: upsertDocPending_ref)
  next
    case 3
    then have "documents st' = documents ?p" by (rule store_in_memory_failure_ref)
    then have "artifact_ref st' (customId file) = artifact_ref ?p (customId file)"
      by (rule artifact_ref_cong)
    then show ?thesis by (simp add: upsertDocPending_ref)
  qed
qed

lemma mem_try_failure_ref:
  assumes "mem_try e file st = (Inl err, st')"
  shows "artifact_ref st' (customId file) = artifact_ref st (customId file)"
proof -
  let ?p = "upsertDocPending (clock e) (docPayload file) st"
  from assms consider "st' = st" | "st' = ?p"
    | pages where "store_in_memory e file pages ?p = (Inl err, st')"
    by (auto simp: mem_try_def split: if_splits sum.splits prod.splits)
  then show ?thesis
  proof cases
    case 1
    then show ?thesis by simp
  next
    case 2
    then show ?thesis by (simp add: upsertDocPending_ref)
  next
    case 3
    then have "documents st' = documents ?p" by (rule store_in_memory_failure_ref)
    then have "artifact_ref st' (customId file) = artifact_ref ?p (customId file)"
      by (rule artifact_ref_cong)
    then show ?thesis by (simp add: upsertDocPending_ref)
  qed
qed

lemma catch_failed_record:
  assumes "catch_failed mx e file (Inl err, st1) = (r, st')" and "failed_ok e"
  shows "r = Inl err \<and>
         column_of st' (customId file) Col_status = Some (Str (ascii ''failed'')) \<and>
         column_of st' (customId file) Col_error = Some (Str (shortErr mx (stack_text e err))) \<and>
         artifact_ref st' (customId file) = artifact_ref st1 (customId file)"
  using assms
    upsertDocFailed_row [of "clock e" "file" "shortErr mx (stack_text e err)" st1]
  by (auto simp: catch_failed_def)

lemma catch_failed_Inl:
  "catch_failed mx e file (r1, st1) = (Inl err, st') \<Longrightarrow> r1 = Inl err"
  by (auto simp: catch_failed_def split: sum.splits)

lemma upsertDocumentFailed_row:
  assumes "p Col_custom_id = Some (Str k)"
  shows "column_of (upsertDocumentFailed now p msg st) k Col_status = Some (Str (ascii ''failed'')) \<and>
         column_of (upsertDocumentFailed now p msg st) k Col_error = Some (Str msg) \<and>
         artifact_ref (upsertDocumentFailed now p msg st) k = (Null, Null)"
  using assms
  by (simp add: upsertDocumentFailed_def upsert_row_def column_of_def artifact_ref_def)

text \<open>
  C6 as stated fails for the manifest script: its failed-state write sets \<open>csv_url\<close>
  and \<open>csv_key\<close> to \<open>null\<close>, so the reference of a processed document is lost.
\<close>

theorem C6_manifest_counterexample:
  "artifact_ref processed_store (ascii ''A'') = (Str (ascii ''https://u/f/k1''), Str (ascii ''k1'')) \<and>
   artifact_ref
     (upsertDocumentFailed (ascii ''2026-01-01T00:00:00.000Z'') manifest_payload (ascii ''Error: boom'')
        processed_store) (ascii ''A'') = (Null, Null)"
proof -
  have k: "manifest_payload Col_custom_id = Some (Str (ascii ''A''))"
    by (simp add: manifest_payload_def)
  have "artifact_ref processed_store (ascii ''A'') =
        (Str (ascii ''https://u/f/k1''), Str (ascii ''k1''))"
    by (simp add: artifact_ref_def processed_store_def processed_row_def)
  then show ?thesis
    using upsertDocumentFailed_row [where p = manifest_payload and k = "ascii ''A''", OF k]
    by blast
qed

text \<open>
  C6, amended. When a worker of the OCR, text-layer or in-memory script ends in failure
  and its failed-state write succeeds, the record of the document has status
  \<open>failed\<close>, a non-null error text (the shortened message), and the artifact reference
  it had before the worker started. The failed-state write of the manifest script sets
  the status and the error text as well, and sets the artifact reference to \<open>null\<close>.
\<close>

theorem C6_failed_record:
  "(failed_ok e \<longrightarrow> ocr_worker e a file st = Some (Inl err, st') \<longrightarrow>
      column_of st' (customId file) Col_status = Some (Str (ascii ''failed'')) \<and>
      column_of st' (customId file) Col_error = Some (Str (shortErr 1800 (stack_text e err))) \<and>
      artifact_ref st' (customId file) = artifact_ref st (customId file)) \<and>
   (failed_ok e \<longrightarrow> textlayer_worker e file st = (Inl err, st') \<longrightarrow>
      column_of st' (customId file) Col_status = Some (Str (ascii ''failed'')) \<and>
      column_of st' (customId file) Col_error = Some (Str (shortErr 1600 (stack_text e err))) \<and>
      artifact_ref st' (customId file) = artifact_ref st (customId file)) \<and>
   (failed_ok e \<longrightarrow> mem_worker e file st = (Inl err, st') \<longrightarrow>
      column_of st' (customId file) Col_status = Some (Str (ascii ''failed'')) \<and>
      column_of st' (customId file) Col_error = Some (Str (shortErr 1600 (stack_text e err))) \<and>
      artifact_ref st' (customId file) = artifact_ref st (customId file)) \<and>
   (p Col_custom_id = Some (Str k) \<longrightarrow>
      column_of (upsertDocumentFailed now p msg st) k Col_status = Some (Str (ascii ''failed'')) \<and>
      column_of (upsertDocumentFailed now p msg st) k Col_error = Some (Str msg) \<and>
      artifact_ref (upsertDocumentFailed now p msg st) k = (Null, Null))"
proof -
  have ocr: "column_of st' (customId file) Col_status = Some (Str (ascii ''failed'')) \<and>
      column_of st' (customId file) Col_error = Some (Str (shortErr 1800 (stack_text e err))) \<and>
      artifact_ref st' (customId file) = artifact_ref st (customId file)"
    if f: "failed_ok e" and w: "ocr_worker e a file st = Some (Inl err, st')"
  proof -
    from w obtain r1 st1 where t: "ocr_try e a file st = Some (r1, st1)"
      and c: "catch_failed 1800 e file (r1, st1) = (Inl err, st')"
      by (auto simp: ocr_worker_def)
    have r1: "r1 = Inl err" using c by (rule catch_failed_Inl)
    show ?thesis
      using catch_failed_record [OF c [unfolded r1] f] ocr_try_failure_ref [OF t [unfolded r1]]
      by simp
  qed
  have tl: "column_of st' (customId file) Col_status = Some (Str (ascii ''failed'')) \<and>
      column_of st' (customId file) Col_error = Some (Str (shortErr 1600 (stack_text e err))) \<and>
      artifact_ref st' (customId file) = artifact_ref st (customId file)"
    if f: "failed_ok e" and w: "textlayer_worker e file st = (Inl err, st')"
  proof -
    obtain r1 st1 where t: "textlayer_try e file st = (r1, st1)" by force
    have c: "catch_failed 1600 e file (r1, st1) = (Inl err, st')"
      using w t by (simp add: textlayer_worker_def)
    have r1: "r1 = Inl err" using c by (rule catch_failed_Inl)
    show ?thesis
      using catch_failed_record [OF c [unfolded r1] f] textlayer_try_failure_ref [OF t [unfolded r1]]
      by simp
  qed
  have mem: "column_of st' (customId file) Col_status = Some (Str (ascii ''failed'')) \<and>
      column_of st' (customId file) Col_error = Some (Str (shortErr 1600 (stack_text e err))) \<and>
      artifact_ref st' (customId file) = artifact_ref st (customId file)"
    if f: "failed_ok e" and w: "mem_worker e file st = (Inl err, st')"
  proof -
    obtain r1 st1 where t: "mem_try e file st = (r1, st1)" by force
    have c: "catch_failed 1600 e file (r1, st1) = (Inl err, st')"
      using w t by (simp add: mem_worker_def)
    have r1: "r1 = Inl err" using c by (rule catch_failed_Inl)
    show ?thesis
      using catch_failed_record [OF c [unfolded r1] f] mem_try_failure_ref [OF t [unfolded r1]]
      by simp
  qed
  show ?thesis
    using ocr tl mem upsertDocumentFailed_row [where p = p and k = k and now = now and msg = msg and st = st]
    by blast
qed

theorem C6_failed_record_witness:
  "failed_ok failing_env \<and>
   ocr_worker failing_env scenario_args scenario_file processed_store =
     Some (Inl DownloadError,
           upsertDocFailed (clock failing_env) (docPayload scenario_file)
             (shortErr 1800 (stack_text failing_env DownloadError))
             (upsertDocPending (clock failing_env) (docPayload scenario_file) processed_store)) \<and>
   column_of
     (upsertDocFailed (clock failing_env) (docPayload scenario_file)
        (shortErr 1800 (stack_text failing_env DownloadError))
        (upsertDocPending (clock failing_env) (docPayload scenario_file) processed_store))
     (customId scenario_file) Col_error =
     Some (Str (shortErr 1800 (stack_text failing_env DownloadError))) \<and>
   artifact_ref
     (upsertDocFailed (clock failing_env) (docPayload scenario_file)
        (shortErr 1800 (stack_text failing_env DownloadError))
        (upsertDocPending (clock failing_env) (docPayload scenario_file) processed_store))
     (customId scenario_file) = artifact_ref processed_store (customId scenario_file) \<and>
   manifest_payload Col_custom_id = Some (Str (ascii ''A'')) \<and>
   artifact_ref
     (upsertDocumentFailed (ascii ''2026-01-01T00:00:00.000Z'') manifest_payload (ascii ''Error: boom'')
        processed_store) (ascii ''A'') = (Null, Null)"
proof -
  let ?st1 = "upsertDocFailed (clock failing_env) (docPayload scenario_file)
             (shortErr 1800 (stack_text failing_env DownloadError))
             (upsertDocPending (clock failing_env) (docPayload scenario_file) processed_store)"
  have f: "failed_ok failing_env"
    by (simp add: failing_env_def scenario_env_def)
  have w: "ocr_worker failing_env scenario_args scenario_file processed_store =
           Some (Inl DownloadError, ?st1)"
    by (simp add: ocr_worker_def ocr_try_def catch_failed_def failing_env_def scenario_env_def)
  have k: "manifest_payload Col_custom_id = Some (Str (ascii ''A''))"
    by (simp add: manifest_payload_def)
  note t = C6_failed_record [of failing_env scenario_args scenario_file processed_store
      DownloadError ?st1 manifest_payload "ascii ''A''" "ascii ''2026-01-01T00:00:00.000Z''"
      "ascii ''Error: boom''"]
  show ?thesis using f w k t by blast
qed

subsection \<open>Stored pages\<close>

lemma ocr_handler_Some:
  assumes "ocr_handler tc page idx = Some r"
  shows "page_number r = page \<and> chars r = length (strip_spaces (page_text r))"
proof -
  have "\<exists>txt. r = page_record page txt"
    using assms
    by (auto simp: ocr_handler_def ocr_page_def split: if_splits sum.splits)
  then show ?thesis by (auto simp: page_record_def Let_def normalizeText_twice)
qed

lemma pageNumbers_nth: "i < n \<Longrightarrow> pageNumbers n ! i = i + 1"
  by (simp add: pageNumbers_def)

lemma length_pageNumbers: "length (pageNumbers n) = n"
  by (simp add: pageNumbers_def)

lemma distinct_pageNumbers: "distinct (pageNumbers n)"
  by (simp add: pageNumbers_def distinct_map inj_on_def)

lemma ocr_pages_results:
  assumes ok: "ocr_pages tc n c sched = Some (Inr rs)" and c: "0 < c"
  shows "mset (map page_number rs) = mset (pageNumbers n)"
    and "\<forall>r \<in> set rs. chars r = length (strip_spaces (page_text r))"
    and "length rs = n"
proof -
  let ?pool = "runConcurrent (pageNumbers n) c (ocr_handler tc) sched"
  have f: "promise_all (tasks ?pool) = Fulfilled" and rs: "rs = results ?pool"
    using ok by (auto simp: ocr_pages_def Let_def split: promise.splits list.splits sum.splits)
  note fr = fulfilled_run [OF f c]
  have cm: "mset (completed ?pool) = mset [0..<n]"
    using fr(2) by (simp add: length_pageNumbers)
  have rm: "map Some rs = map (\<lambda>i. ocr_handler tc (pageNumbers n ! i) i) (completed ?pool)"
    using fr(5) rs by simp
  have len: "length rs = length (completed ?pool)"
    using rm by (metis length_map)
  have each: "page_number (rs ! j) = pageNumbers n ! (completed ?pool ! j) \<and>
              chars (rs ! j) = length (strip_spaces (page_text (rs ! j)))"
    if j: "j < length rs" for j
  proof -
    have "map Some rs ! j = map (\<lambda>i. ocr_handler tc (pageNumbers n ! i) i) (completed ?pool) ! j"
      using rm by simp
    then have "ocr_handler tc (pageNumbers n ! (completed ?pool ! j)) (completed ?pool ! j) = Some (rs ! j)"
      using j len by simp
    then show ?thesis by (rule ocr_handler_Some)
  qed
  have "map page_number rs = map (\<lambda>i. pageNumbers n ! i) (completed ?pool)"
    using each len by (intro nth_equalityI) simp_all
  then have "mset (map page_number rs) = image_mset (\<lambda>i. pageNumbers n ! i) (mset (completed ?pool))"
    by simp
  also have "\<dots> = mset (map (\<lambda>i. pageNumbers n ! i) [0..<n])"
    unfolding cm by simp
  also have "map (\<lambda>i. pageNumbers n ! i) [0..<n] = pageNumbers n"
    using map_nth [of "pageNumbers n"] by (simp add: length_pageNumbers)
  finally show "mset (map page_number rs) = mset (pageNumbers n)" .
  show "\<forall>r \<in> set rs. chars r = length (strip_spaces (page_text r))"
    using each by (metis in_set_conv_nth)
  show "length rs = n"
    using len cm by (metis length_upt diff_zero size_mset)
qed

lemma nonEmptyPages_ascending:
  assumes "distinct (map page_number rs)"
  shows "sorted_wrt (<) (map page_number (nonEmptyPages rs))"
proof -
  have "mset (map page_number (sort_key page_number rs)) = mset (map page_number rs)"
    by simp
  then have "distinct (map page_number (sort_key page_number rs))"
    using assms by (metis mset_eq_imp_distinct_iff)
  moreover have "sorted (map page_number (sort_key page_number rs))"
    by (rule sorted_sort_key)
  ultimately have "sorted_wrt (<) (map page_number (sort_key page_number rs))"
    by (simp add: strict_sorted_iff)
  then have "sorted_wrt (\<lambda>x y. page_number x < page_number y) (sort_key page_number rs)"
    by (simp add: sorted_wrt_map)
  then have "sorted_wrt (\<lambda>x y. page_number x < page_number y) (nonEmptyPages rs)"
    unfolding nonEmptyPages_def by (rule sorted_wrt_filter)
  then show ?thesis by (simp add: sorted_wrt_map)
qed

lemma nonEmptyPages_subset: "set (nonEmptyPages rs) = {p \<in> set rs. 0 < chars p}"
  by (auto simp: nonEmptyPages_def)

lemma upsertPageChunk_pages:
  "document_pages (upsertPageChunk cid chunk st) = fold (put_page cid) chunk (document_pages st)"
  by (simp add: upsertPageChunk_def put_page_def [abs_def])

lemma write_pages_rows:
  "write_pages ok cid k chunk pages st = (None, st') \<Longrightarrow>
   document_pages st' = fold (put_page cid) (chunk @ pages) (document_pages st)"
proof (induction ok cid k chunk pages st rule: write_pages.induct)
  case (1 ok cid k chunk st)
  then show ?case by (auto simp: upsertPageChunk_pages split: if_splits)
next
  case (2 ok cid k chunk page pages st)
  then show ?case by (auto simp: upsertPageChunk_pages split: if_splits)
qed

lemma fold_put_other:
  "n \<notin> page_number ` set xs \<Longrightarrow> fold (put_page cid) xs m (cid, n) = m (cid, n)"
  by (induction xs arbitrary: m) (auto simp: put_page_def)

lemma fold_put_other_doc:
  "k \<noteq> cid \<Longrightarrow> fold (put_page cid) xs m (k, n) = m (k, n)"
  by (induction xs arbitrary: m) (auto simp: put_page_def)

lemma fold_put_member:
  "distinct (map page_number xs) \<Longrightarrow> p \<in> set xs \<Longrightarrow>
   fold (put_page cid) xs m (cid, page_number p) = Some (page_text p)"
proof (induction xs arbitrary: m)
  case Nil
  then show ?case by simp
next
  case (Cons x xs)
  show ?case
  proof (cases "p \<in> set xs")
    case True
    then show ?thesis using Cons by simp
  next
    case False
    then have px: "p = x" using Cons.prems by simp
    have "page_number x \<notin> page_number ` set xs" using Cons.prems by simp
    then have "fold (put_page cid) xs (put_page cid x m) (cid, page_number x) =
               put_page cid x m (cid, page_number x)"
      by (rule fold_put_other)
    also have "\<dots> = Some (page_text x)" by (simp add: put_page_def)
    finally show ?thesis by (simp add: px)
  qed
qed

lemma ocr_worker_success:
  assumes "ocr_worker e a file st = Some (Inr d, st')"
  shows "\<exists>total rs st2.
           pdfinfo (tools e) = Some total \<and>
           ocr_pages (tools e) (pagesToProcess (maxPages a) total) (pageConcurrency a) (page_order e) =
             Some (Inr rs) \<and>
           stored_pages d = nonEmptyPages rs \<and> stored_pages d \<noteq> [] \<and>
           artifact d = csv_file (pdf_name_of file) (customId file) (url_text file) (stored_pages d) \<and>
           write_pages (chunk_ok e) (customId file) 0 [] (stored_pages d)
             (clearPages (customId file) (upsertDocPending (clock e) (docPayload file) st)) = (None, st2) \<and>
           st' = markDocProcessed (clock e) (customId file) (csvUrl (reference d)) (csvKey (reference d)) st2"
proof -
  from assms obtain r1 st1 where t: "ocr_try e a file st = Some (r1, st1)"
    and c: "catch_failed 1800 e file (r1, st1) = (Inr d, st')"
    by (auto simp: ocr_worker_def)
  have r1: "r1 = Inr d" and st1: "st1 = st'"
    using c by (auto simp: catch_failed_def split: sum.splits)
  let ?p = "upsertDocPending (clock e) (docPayload file) st"
  from t [unfolded r1 st1] obtain total rs where
    pi: "pdfinfo (tools e) = Some total" and
    pg: "ocr_pages (tools e) (pagesToProcess (maxPages a) total) (pageConcurrency a) (page_order e) =
             Some (Inr rs)" and
    os: "ocr_store e file total (pagesToProcess (maxPages a) total) rs ?p = (Inr d, st')"
    by (auto simp: ocr_try_def getPdfPageCount_def split: if_splits sum.splits option.splits)
  from os show ?thesis
    using pi pg
    by (auto simp: ocr_store_def Let_def split: if_splits prod.splits option.splits sum.splits)
qed

lemma markDocProcessed_pages: "document_pages (markDocProcessed now cid u k st) = document_pages st"
  by (simp add: markDocProcessed_def)

lemma clearPages_rows:
  "document_pages (clearPages cid st) (k, n) = (if k = cid then None else document_pages st (k, n))"
  by (simp add: clearPages_def)

lemma upsertDocPending_pages: "document_pages (upsertDocPending now p st) = document_pages st"
  by (simp add: upsertDocPending_def)

lemma mem_pages_meaningful:
  "\<forall>p \<in> set (mem_pages pagesAll). 0 < length (strip_spaces (page_text p))"
  by (auto simp: mem_pages_def hasMeaningfulText_mem_def)

lemma mem_pages_numbers:
  "map page_number (mem_pages pagesAll) =
   map fst (filter (\<lambda>(n, t). hasMeaningfulText_mem (js_or_str t [])) pagesAll)"
  by (induction pagesAll) (auto simp: mem_pages_def)

lemma mem_pages_ascending:
  assumes "sorted_wrt (<) (map fst pagesAll)"
  shows "sorted_wrt (<) (map page_number (mem_pages pagesAll))"
proof -
  have "sorted_wrt (\<lambda>x y. fst x < fst y) pagesAll"
    using assms by (simp add: sorted_wrt_map)
  then have "sorted_wrt (\<lambda>x y. fst x < fst y)
               (filter (\<lambda>(n, t). hasMeaningfulText_mem (js_or_str t [])) pagesAll)"
    by (rule sorted_wrt_filter)
  then show ?thesis by (simp add: mem_pages_numbers sorted_wrt_map)
qed

lemma upsert_slices_rows:
  "upsert_slices ok cid k pages st = (None, st') \<Longrightarrow>
   document_pages st' = fold (put_page cid) pages (document_pages st)"
proof (induction ok cid k pages st rule: upsert_slices.induct)
  case (1 ok cid k pages st)
  show ?case
  proof (cases "pages = []")
    case True
    then show ?thesis
      using "1.prems" by (subst (asm) upsert_slices.simps) simp
  next
    case False
    have okk: "ok k"
      using "1.prems" False by (subst (asm) upsert_slices.simps) (auto split: if_splits)
    have rec: "upsert_slices ok cid (k + 1) (drop PAGE_CHUNK_SIZE pages)
                 (upsertPageChunk cid (take PAGE_CHUNK_SIZE pages) st) = (None, st')"
      using "1.prems" False okk by (subst (asm) upsert_slices.simps) simp
    have "document_pages st' =
            fold (put_page cid) (drop PAGE_CHUNK_SIZE pages)
              (document_pages (upsertPageChunk cid (take PAGE_CHUNK_SIZE pages) st))"
      using "1.IH" [OF False okk rec] .
    also have "\<dots> = fold (put_page cid) (take PAGE_CHUNK_SIZE pages @ drop PAGE_CHUNK_SIZE pages)
                       (document_pages st)"
      by (simp add: upsertPageChunk_pages del: append_take_drop_id)
    finally show ?thesis by simp
  qed
qed

lemma fold_put_source:
  "fold (put_page cid) xs m (k, n) = Some t \<Longrightarrow>
   (\<exists>p \<in> set xs. k = cid \<and> page_number p = n \<and> page_text p = t) \<or> m (k, n) = Some t"
proof (induction xs arbitrary: m)
  case Nil
  then show ?case by simp
next
  case (Cons x xs)
  from Cons.IH [of "put_page cid x m"] Cons.prems
  have "(\<exists>p \<in> set xs. k = cid \<and> page_number p = n \<and> page_text p = t) \<or>
        put_page cid x m (k, n) = Some t"
    by simp
  then show ?case
    by (auto simp: put_page_def split: if_splits)
qed

lemma mem_worker_stored:
  assumes "mem_worker e file st = (Inr d, st')"
  shows "\<exists>pagesAll stats st2.
           extractor e = Inr (pagesAll, stats) \<and>
           stored_pages d = mem_pages pagesAll \<and>
           artifact d = csv_file (pdf_name_of file) (customId file) (url_text file) (stored_pages d) \<and>
           upsert_slices (chunk_ok e) (customId file) 0 (stored_pages d)
             (clearPages (customId file) (upsertDocPending (clock e) (docPayload file) st)) = (None, st2) \<and>
           st' = markDocProcessed (clock e) (customId file) (csvUrl (reference d)) (csvKey (reference d)) st2"
proof -
  obtain r1 st1 where t: "mem_try e file st = (r1, st1)" by force
  have r1: "r1 = Inr d" and st1: "st1 = st'"
    using assms t by (auto simp: mem_worker_def catch_failed_def split: sum.splits)
  let ?p = "upsertDocPending (clock e) (docPayload file) st"
  from t [unfolded r1 st1] obtain pagesAll stats where
    ex: "extractor e = Inr (pagesAll, stats)" and
    sm: "store_in_memory e file (mem_pages pagesAll) ?p = (Inr d, st')"
    by (auto simp: mem_try_def split: if_splits sum.splits prod.splits)
  from sm show ?thesis
    using ex
    by (auto simp: store_in_memory_def replacePages_def
        split: if_splits prod.splits option.splits sum.splits)
qed

text \<open>
  C3 as stated fails for the in-memory script, which stores the pages in the order in
  which its extractor lists them and never sorts: when the extractor lists page 2 before
  page 1, the worker completes, and the stored pages and the rows of the artifact are
  page 2, then page 1.
\<close>

theorem C3_in_memory_order_counterexample:
  "map_sum (\<lambda>err. err) (map page_number \<circ> stored_pages)
     (fst (mem_worker unsorted_env scenario_file empty_store)) = Inr [2, 1] \<and>
   map_sum (\<lambda>err. err) (parseCsvRows \<circ> artifact)
     (fst (mem_worker unsorted_env scenario_file empty_store)) =
     Inr [csv_header_row,
          [ascii ''a.pdf'', ascii ''A'', ascii ''http://x/a.pdf'', ascii ''2'', ascii ''a''],
          [ascii ''a.pdf'', ascii ''A'', ascii ''http://x/a.pdf'', ascii ''1'', ascii ''b'']] \<and>
   \<not> sorted_wrt (<) [2, 1 :: nat]"
  by code_simp

text \<open>
  C3, amended. Whenever the OCR worker completes a document, whatever the order in which
  the page handlers settled: the stored pages are strictly ascending by page number; the
  text of every stored page has at least one non-whitespace character; the page rows of
  the document in the store are exactly the stored pages; and the artifact parses back to
  the header and one row per stored page, in that order. Whenever the in-memory worker
  completes a document: the stored pages are the pages of the extractor that have at
  least one non-whitespace character, in the extractor's order; every stored page and
  every page row of the document in the store has at least one non-whitespace character,
  and every page row has the number of a stored page; the artifact parses back to the
  header and one row per stored page, in that order; and when the extractor lists the
  pages in strictly ascending order, the stored pages are strictly ascending and each of
  them is a page row of the document in the store.
\<close>

theorem C3_stored_pages_ascending_nonempty:
  "(0 < pageConcurrency a \<longrightarrow> ocr_worker e a file st = Some (Inr d, st') \<longrightarrow>
      sorted_wrt (<) (map page_number (stored_pages d)) \<and>
      (\<forall>p \<in> set (stored_pages d). 0 < length (strip_spaces (page_text p))) \<and>
      (\<forall>p \<in> set (stored_pages d).
          document_pages st' (customId file, page_number p) = Some (page_text p)) \<and>
      (\<forall>n. n \<notin> page_number ` set (stored_pages d) \<longrightarrow> document_pages st' (customId file, n) = None) \<and>
      parseCsvRows (artifact d) =
        csv_header_row #
        map (csv_row (pdf_name_of file) (customId file) (url_text file)) (stored_pages d)) \<and>
   (mem_worker e file st = (Inr d2, st2) \<longrightarrow> extractor e = Inr (pagesAll, stats) \<longrightarrow>
      stored_pages d2 = mem_pages pagesAll \<and>
      map page_number (stored_pages d2) =
        map fst (filter (\<lambda>(n, t). hasMeaningfulText_mem (js_or_str t [])) pagesAll) \<and>
      (\<forall>p \<in> set (stored_pages d2). 0 < length (strip_spaces (page_text p))) \<and>
      (\<forall>n t. document_pages st2 (customId file, n) = Some t \<longrightarrow>
          0 < length (strip_spaces t) \<and> n \<in> page_number ` set (stored_pages d2)) \<and>
      parseCsvRows (artifact d2) =
        csv_header_row #
        map (csv_row (pdf_name_of file) (customId file) (url_text file)) (stored_pages d2) \<and>
      (sorted_wrt (<) (map fst pagesAll) \<longrightarrow>
         sorted_wrt (<) (map page_number (stored_pages d2)) \<and>
         (\<forall>p \<in> set (stored_pages d2).
             document_pages st2 (customId file, page_number p) = Some (page_text p))))"
proof -
  have ocr: "sorted_wrt (<) (map page_number (stored_pages d)) \<and>
      (\<forall>p \<in> set (stored_pages d). 0 < length (strip_spaces (page_text p))) \<and>
      (\<forall>p \<in> set (stored_pages d).
          document_pages st' (customId file, page_number p) = Some (page_text p)) \<and>
      (\<forall>n. n \<notin> page_number ` set (stored_pages d) \<longrightarrow> document_pages st' (customId file, n) = None) \<and>
      parseCsvRows (artifact d) =
        csv_header_row #
        map (csv_row (pdf_name_of file) (customId file) (url_text file)) (stored_pages d)"
    if c: "0 < pageConcurrency a" and w: "ocr_worker e a file st = Some (Inr d, st')"
  proof -
    from ocr_worker_success [OF w] obtain total rs st2 where
      pg: "ocr_pages (tools e) (pagesToProcess (maxPages a) total) (pageConcurrency a) (page_order e) =
             Some (Inr rs)" and
      sp: "stored_pages d = nonEmptyPages rs" and
      ar: "artifact d = csv_file (pdf_name_of file) (customId file) (url_text file) (stored_pages d)" and
      wp: "write_pages (chunk_ok e) (customId file) 0 [] (stored_pages d)
             (clearPages (customId file) (upsertDocPending (clock e) (docPayload file) st)) = (None, st2)" and
      st': "st' = markDocProcessed (clock e) (customId file) (csvUrl (reference d)) (csvKey (reference d)) st2"
      by blast
    note pr = ocr_pages_results [OF pg c]
    have "distinct (map page_number rs)"
      using pr(1) distinct_pageNumbers by (metis mset_eq_imp_distinct_iff)
    then have asc: "sorted_wrt (<) (map page_number (stored_pages d))"
      unfolding sp by (rule nonEmptyPages_ascending)
    then have dist: "distinct (map page_number (stored_pages d))"
      by (simp add: strict_sorted_iff)
    have ne: "\<forall>p \<in> set (stored_pages d). 0 < length (strip_spaces (page_text p))"
      using pr(2) by (auto simp: sp nonEmptyPages_subset)
    have rows: "document_pages st' =
        fold (put_page (customId file)) (stored_pages d)
          (document_pages (clearPages (customId file) (upsertDocPending (clock e) (docPayload file) st)))"
      using write_pages_rows [OF wp] by (simp add: st' markDocProcessed_pages)
    have r1: "\<forall>p \<in> set (stored_pages d).
          document_pages st' (customId file, page_number p) = Some (page_text p)"
      unfolding rows using fold_put_member [OF dist] by blast
    have r2: "\<forall>n. n \<notin> page_number ` set (stored_pages d) \<longrightarrow> document_pages st' (customId file, n) = None"
      unfolding rows by (simp add: fold_put_other clearPages_rows)
    show ?thesis
      using asc ne r1 r2 by (simp add: ar parseCsvRows_csv_file)
  qed
  have mem: "stored_pages d2 = mem_pages pagesAll \<and>
      map page_number (stored_pages d2) =
        map fst (filter (\<lambda>(n, t). hasMeaningfulText_mem (js_or_str t [])) pagesAll) \<and>
      (\<forall>p \<in> set (stored_pages d2). 0 < length (strip_spaces (page_text p))) \<and>
      (\<forall>n t. document_pages st2 (customId file, n) = Some t \<longrightarrow>
          0 < length (strip_spaces t) \<and> n \<in> page_number ` set (stored_pages d2)) \<and>
      parseCsvRows (artifact d2) =
        csv_header_row #
        map (csv_row (pdf_name_of file) (customId file) (url_text file)) (stored_pages d2) \<and>
      (sorted_wrt (<) (map fst pagesAll) \<longrightarrow>
         sorted_wrt (<) (map page_number (stored_pages d2)) \<and>
         (\<forall>p \<in> set (stored_pages d2).
             document_pages st2 (customId file, page_number p) = Some (page_text p)))"
    if w: "mem_worker e file st = (Inr d2, st2)" and ex: "extractor e = Inr (pagesAll, stats)"
  proof -
    from mem_worker_stored [OF w] ex obtain st1 where
      sp: "stored_pages d2 = mem_pages pagesAll" and
      ar: "artifact d2 = csv_file (pdf_name_of file) (customId file) (url_text file) (stored_pages d2)" and
      us: "upsert_slices (chunk_ok e) (customId file) 0 (stored_pages d2)
             (clearPages (customId file) (upsertDocPending (clock e) (docPayload file) st)) = (None, st1)" and
      st2: "st2 = markDocProcessed (clock e) (customId file) (csvUrl (reference d2)) (csvKey (reference d2)) st1"
      by auto
    have nums: "map page_number (stored_pages d2) =
        map fst (filter (\<lambda>(n, t). hasMeaningfulText_mem (js_or_str t [])) pagesAll)"
      unfolding sp by (rule mem_pages_numbers)
    have ne: "\<forall>p \<in> set (stored_pages d2). 0 < length (strip_spaces (page_text p))"
      unfolding sp by (rule mem_pages_meaningful)
    have rows: "document_pages st2 =
        fold (put_page (customId file)) (stored_pages d2)
          (document_pages (clearPages (customId file) (upsertDocPending (clock e) (docPayload file) st)))"
      using upsert_slices_rows [OF us] by (simp add: st2 markDocProcessed_pages)
    have src: "0 < length (strip_spaces t) \<and> n \<in> page_number ` set (stored_pages d2)"
      if r: "document_pages st2 (customId file, n) = Some t" for n t
    proof -
      from r [unfolded rows] fold_put_source
      have "(\<exists>p \<in> set (stored_pages d2). page_number p = n \<and> page_text p = t) \<or>
            document_pages (clearPages (customId file) (upsertDocPending (clock e) (docPayload file) st))
              (customId file, n) = Some t"
        by fast
      then obtain p where "p \<in> set (stored_pages d2)" "page_number p = n" "page_text p = t"
        by (auto simp: clearPages_rows)
      then show ?thesis using ne by auto
    qed
    have asc: "sorted_wrt (<) (map page_number (stored_pages d2)) \<and>
         (\<forall>p \<in> set (stored_pages d2).
             document_pages st2 (customId file, page_number p) = Some (page_text p))"
      if s: "sorted_wrt (<) (map fst pagesAll)"
    proof -
      have a: "sorted_wrt (<) (map page_number (stored_pages d2))"
        unfolding sp using s by (rule mem_pages_ascending)
      then have dist: "distinct (map page_number (stored_pages d2))"
        by (simp add: strict_sorted_iff)
      show ?thesis
        unfolding rows using a fold_put_member [OF dist] by blast
    qed
    show ?thesis
      using sp nums ne src asc by (simp add: ar parseCsvRows_csv_file)
  qed
  show ?thesis
    using ocr mem by blast
qed

theorem C3_stored_pages_witness:
  "0 < pageConcurrency scenario_args \<and>
   map_option (map_sum (\<lambda>err. err) stored_pages \<circ> fst)
     (ocr_worker mem_env scenario_args scenario_file empty_store) =
     Some (Inr [hello_page, page_two]) \<and>
   map_sum (\<lambda>err. err) stored_pages (fst (mem_worker mem_env scenario_file empty_store)) =
     Inr [hello_page, page_two] \<and>
   extractor mem_env = Inr (scenario_extracted, ascii ''{}'') \<and>
   sorted_wrt (<) (map fst scenario_extracted) \<and>
   sorted_wrt (<) (map page_number [hello_page, page_two]) \<and>
   0 < length (strip_spaces (page_text hello_page)) \<and>
   0 < length (strip_spaces (page_text page_two)) \<and>
   mem_pages scenario_extracted = [hello_page, page_two] \<and>
   document_pages (snd (mem_worker mem_env scenario_file empty_store))
     (customId scenario_file, page_number page_two) = Some (page_text page_two)"
proof -
  let ?w = "ocr_worker mem_env scenario_args scenario_file empty_store"
  let ?m = "mem_worker mem_env scenario_file empty_store"
  have c: "0 < pageConcurrency scenario_args"
    by (simp add: scenario_args_def)
  have r: "map_option (map_sum (\<lambda>err. err) stored_pages \<circ> fst) ?w = Some (Inr [hello_page, page_two])"
    by code_simp
  have "\<exists>d st'. ?w = Some (Inr d, st') \<and> stored_pages d = [hello_page, page_two]"
  proof (cases ?w)
    case None
    then show ?thesis using r by simp
  next
    case (Some x)
    obtain y st' where x: "x = (y, st')" by (cases x)
    show ?thesis
    proof (cases y)
      case (Inl err)
      then show ?thesis using r Some x by simp
    next
      case (Inr d)
      then show ?thesis using r Some x by simp
    qed
  qed
  then obtain d st' where w: "?w = Some (Inr d, st')" and sp: "stored_pages d = [hello_page, page_two]"
    by blast
  have r2: "map_sum (\<lambda>err. err) stored_pages (fst ?m) = Inr [hello_page, page_two]"
    by code_simp
  have "\<exists>d2. ?m = (Inr d2, snd ?m) \<and> stored_pages d2 = [hello_page, page_two]"
  proof (cases "fst ?m")
    case (Inl err)
    then show ?thesis using r2 by simp
  next
    case (Inr d2)
    have 1: "?m = (Inr d2, snd ?m)"
      using Inr by (metis prod.collapse)
    have 2: "stored_pages d2 = [hello_page, page_two]"
      using r2 Inr by simp
    show ?thesis
      using 1 2 by blast
  qed
  then obtain d2 where m: "?m = (Inr d2, snd ?m)" and sp2: "stored_pages d2 = [hello_page, page_two]"
    by blast
  have ex: "extractor mem_env = Inr (scenario_extracted, ascii ''{}'')"
    by (simp add: mem_env_def)
  have s: "sorted_wrt (<) (map fst scenario_extracted)"
    by (simp add: scenario_extracted_def)
  note t = C3_stored_pages_ascending_nonempty [of scenario_args mem_env scenario_file empty_store
      d st' d2 "snd ?m" scenario_extracted "ascii ''{}''"]
  have a: "sorted_wrt (<) (map page_number (stored_pages d))"
    "\<forall>p \<in> set (stored_pages d). 0 < length (strip_spaces (page_text p))"
    using t c w by blast+
  have b: "0 < length (strip_spaces (page_text hello_page))"
    "0 < length (strip_spaces (page_text page_two))"
    using a(2) unfolding sp by simp_all
  have e: "stored_pages d2 = mem_pages scenario_extracted"
    using t m ex by blast
  have f: "\<forall>p \<in> set (stored_pages d2).
             document_pages (snd ?m) (customId scenario_file, page_number p) = Some (page_text p)"
    using t m ex s by blast
  have g: "document_pages (snd ?m) (customId scenario_file, page_number page_two) =
           Some (page_text page_two)"
    using f unfolding sp2 by simp
  have h: "mem_pages scenario_extracted = [hello_page, page_two]"
    using e sp2 by simp
  show ?thesis
    using c r r2 ex s a(1) b g h unfolding sp by blast
qed

subsection \<open>Documents without text\<close>

lemma extract_loop_inv:
  "extract_loop tc ps pages0 e0 = Inr (pages, emptyPages) \<Longrightarrow>
   length pages + emptyPages = length pages0 + e0 + length ps \<and>
   (\<forall>p \<in> set pages. p \<in> set pages0 \<or> hasMeaningfulText (page_text p))"
proof (induction tc ps pages0 e0 rule: extract_loop.induct)
  case (1 tc pages e0)
  then show ?case by simp
next
  case (2 tc page rest pages0 e0)
  note prems = "2.prems"
  have "\<exists>txt. extractPageWithPdftotext tc page = Inr txt"
    using prems by (auto split: sum.splits)
  then obtain tx where x: "extractPageWithPdftotext tc page = Inr tx" ..
  then have "\<exists>out. tx = normalizeText out"
    by (auto simp: extractPageWithPdftotext_def split: option.splits)
  then obtain out where tx: "tx = normalizeText out" ..
  show ?case
  proof (cases "0 < length (strip_spaces tx)")
    case True
    then have m: "hasMeaningfulText tx"
      by (simp add: tx hasMeaningfulText_normalized)
    from "2.IH"(1) [OF x True] prems x True m show ?thesis by auto
  next
    case False
    from "2.IH"(2) [OF x False] prems x False show ?thesis by auto
  qed
qed

lemma extractAllPages_empty:
  assumes "extractAllPagesFromBuffer tc = Inr (pages, stats)"
    and "filter (\<lambda>p. hasMeaningfulText (page_text p)) pages = []"
  shows "\<exists>total. pdfinfo tc = Some total \<and> stats = (total, 0, total) \<and> pages = []"
proof -
  from assms(1) obtain total emptyPages where
    pi: "pdfinfo tc = Some total" and
    lp: "extract_loop tc (pageNumbers total) [] 0 = Inr (pages, emptyPages)" and
    st: "stats = (total, length pages, emptyPages)"
    by (auto simp: extractAllPagesFromBuffer_def getPdfPageCount_def
        split: sum.splits option.splits prod.splits)
  note inv = extract_loop_inv [OF lp]
  have "\<forall>p \<in> set pages. hasMeaningfulText (page_text p)" using inv by simp
  then have "filter (\<lambda>p. hasMeaningfulText (page_text p)) pages = pages" by simp
  then have e: "pages = []" using assms(2) by simp
  then have "emptyPages = total" using inv by (simp add: length_pageNumbers)
  then show ?thesis using pi st e by simp
qed

lemma ocr_store_empty:
  "nonEmptyPages rs = [] \<Longrightarrow>
   ocr_store e file totalPages n rs st = (Inl (NoTextAfterOcr totalPages n (length rs)), st)"
  by (simp add: ocr_store_def)

lemma ocr_worker_empty:
  assumes "pending_ok e" "download_ok e" "pdfinfo (tools e) = Some totalPages" "0 < pageConcurrency a"
    and pg: "ocr_pages (tools e) (pagesToProcess (maxPages a) totalPages) (pageConcurrency a) (page_order e) =
             Some (Inr rs)"
    and ne: "nonEmptyPages rs = []"
  shows "ocr_worker e a file st =
         Some (catch_failed 1800 e file
                 (Inl (NoTextAfterOcr totalPages (pagesToProcess (maxPages a) totalPages)
                         (pagesToProcess (maxPages a) totalPages)),
                  upsertDocPending (clock e) (docPayload file) st))"
proof -
  have "length rs = pagesToProcess (maxPages a) totalPages"
    using ocr_pages_results(3) [OF pg assms(4)] .
  then show ?thesis
    using assms(1,2,3) pg ne
    by (simp add: ocr_worker_def ocr_try_def getPdfPageCount_def ocr_store_empty)
qed

lemma textlayer_worker_empty:
  assumes "pending_ok e" "download_ok e"
    and "extractAllPagesFromBuffer (tools e) = Inr (pages, stats)"
    and "filter (\<lambda>p. hasMeaningfulText (page_text p)) pages = []"
  shows "\<exists>totalPages. pdfinfo (tools e) = Some totalPages \<and>
         textlayer_worker e file st =
           catch_failed 1600 e file
             (Inl (NoTextLayer totalPages 0 totalPages), upsertDocPending (clock e) (docPayload file) st)"
proof -
  from extractAllPages_empty [OF assms(3,4)] obtain totalPages where
    "pdfinfo (tools e) = Some totalPages" "stats = (totalPages, 0, totalPages)" by blast
  then show ?thesis
    using assms by (auto simp: textlayer_worker_def textlayer_try_def)
qed

lemma mem_worker_empty:
  assumes "pending_ok e" "download_ok e" "extractor e = Inr (pagesAll, stats)"
    and "mem_pages pagesAll = []"
  shows "mem_worker e file st =
           catch_failed 1600 e file
             (Inl (NoTextInMemory stats), upsertDocPending (clock e) (docPayload file) st)"
  using assms by (simp add: mem_worker_def mem_try_def)

lemma catch_failed_fails:
  "fst (catch_failed mx e file (Inl err, st1)) = Inl err \<and>
   (failed_ok e \<longrightarrow>
      column_of (snd (catch_failed mx e file (Inl err, st1))) (customId file) Col_status =
        Some (Str (ascii ''failed'')))"
  using catch_failed_record [of mx e "file" err st1]
  by (cases "catch_failed mx e file (Inl err, st1)") (auto simp: catch_failed_def)

lemma store_in_memory_success:
  "store_in_memory e file pages st = (Inr d, st') \<Longrightarrow> stored_pages d = pages"
  by (auto simp: store_in_memory_def split: prod.splits option.splits sum.splits if_splits)

lemma textlayer_worker_success:
  assumes "textlayer_worker e file st = (Inr d, st')"
  shows "stored_pages d \<noteq> []"
proof -
  obtain r1 st1 where t: "textlayer_try e file st = (r1, st1)" by force
  have "r1 = Inr d"
    using assms t by (auto simp: textlayer_worker_def catch_failed_def split: sum.splits)
  then show ?thesis
    using t
    by (auto simp: textlayer_try_def split: if_splits sum.splits prod.splits
        dest!: store_in_memory_success)
qed

lemma mem_worker_success:
  assumes "mem_worker e file st = (Inr d, st')"
  shows "stored_pages d \<noteq> []"
proof -
  obtain r1 st1 where t: "mem_try e file st = (r1, st1)" by force
  have "r1 = Inr d"
    using assms t by (auto simp: mem_worker_def catch_failed_def split: sum.splits)
  then show ?thesis
    using t
    by (auto simp: mem_try_def split: if_splits sum.splits prod.splits
        dest!: store_in_memory_success)
qed

lemma pagesToProcess_uncapped: "pagesToProcess None totalPages = totalPages"
  by (simp add: pagesToProcess_def)

text \<open>
  C4 as stated fails in the OCR script when \<open>--maxPages\<close> caps the pages below the
  page count: for a two-page document capped at one page, the error carries
  \<open>totalPages = 2\<close>, \<open>processedPages = 1\<close> and \<open>emptyPages = 1\<close>.
\<close>

theorem C4_capped_run_counterexample:
  "map_option fst
     (ocr_worker (scenario_env blank_tools [0]) capped_args scenario_file empty_store) =
   Some (Inl (NoTextAfterOcr 2 1 1))"
  by code_simp

text \<open>
  C4, amended. When no page of a document has meaningful text, the worker throws the
  "no extractable text" error, the \<open>catch\<close> writes the failed record, and the document
  is not marked processed; a worker that succeeds has stored at least one page. The
  error of the OCR script carries \<open>totalPages\<close>, \<open>processedPages\<close> and
  \<open>emptyPages = processedPages\<close>, which is \<open>totalPages\<close> when \<open>--maxPages\<close> is
  not given; the error of the text-layer script carries \<open>totalPages\<close>,
  \<open>storedPages = 0\<close> and \<open>emptyPages = totalPages\<close>; the error of the in-memory
  script carries the statistics its extractor reported.
\<close>

theorem C4_empty_extraction_fails:
  "(pending_ok e \<longrightarrow> download_ok e \<longrightarrow> pdfinfo (tools e) = Some totalPages \<longrightarrow>
    0 < pageConcurrency a \<longrightarrow>
    ocr_pages (tools e) (pagesToProcess (maxPages a) totalPages) (pageConcurrency a) (page_order e) =
      Some (Inr rs) \<longrightarrow>
    nonEmptyPages rs = [] \<longrightarrow>
      ocr_worker e a file st =
        Some (catch_failed 1800 e file
                (Inl (NoTextAfterOcr totalPages (pagesToProcess (maxPages a) totalPages)
                        (pagesToProcess (maxPages a) totalPages)),
                 upsertDocPending (clock e) (docPayload file) st))) \<and>
   pagesToProcess None totalPages = totalPages \<and>
   (pending_ok e \<longrightarrow> download_ok e \<longrightarrow>
    extractAllPagesFromBuffer (tools e) = Inr (pages, stats) \<longrightarrow>
    filter (\<lambda>p. hasMeaningfulText (page_text p)) pages = [] \<longrightarrow>
      (\<exists>n. pdfinfo (tools e) = Some n \<and>
           textlayer_worker e file st =
             catch_failed 1600 e file
               (Inl (NoTextLayer n 0 n), upsertDocPending (clock e) (docPayload file) st))) \<and>
   (pending_ok e \<longrightarrow> download_ok e \<longrightarrow> extractor e = Inr (pagesAll, json) \<longrightarrow>
    mem_pages pagesAll = [] \<longrightarrow>
      mem_worker e file st =
        catch_failed 1600 e file
          (Inl (NoTextInMemory json), upsertDocPending (clock e) (docPayload file) st)) \<and>
   fst (catch_failed mx e file (Inl err, st1)) = Inl err \<and>
   (failed_ok e \<longrightarrow>
      column_of (snd (catch_failed mx e file (Inl err, st1))) (customId file) Col_status =
        Some (Str (ascii ''failed''))) \<and>
   (ocr_worker e a file st = Some (Inr d, st') \<longrightarrow> stored_pages d \<noteq> []) \<and>
   (textlayer_worker e file st = (Inr d, st') \<longrightarrow> stored_pages d \<noteq> []) \<and>
   (mem_worker e file st = (Inr d, st') \<longrightarrow> stored_pages d \<noteq> [])"
proof -
  have s: "ocr_worker e a file st = Some (Inr d, st') \<Longrightarrow> stored_pages d \<noteq> []"
    using ocr_worker_success by blast
  show ?thesis
    using ocr_worker_empty [of e totalPages a rs "file" st]
      textlayer_worker_empty [of e pages stats "file" st]
      mem_worker_empty [of e pagesAll json "file" st]
      catch_failed_fails [of mx e "file" err st1]
      textlayer_worker_success [of e "file" st d st']
      mem_worker_success [of e "file" st d st'] s pagesToProcess_uncapped [of totalPages]
    by blast
qed

theorem C4_empty_extraction_fails_witness:
  "pending_ok blank_env \<and> download_ok blank_env \<and> pdfinfo (tools blank_env) = Some 2 \<and>
   0 < pageConcurrency uncapped_args \<and>
   ocr_pages (tools blank_env) (pagesToProcess (maxPages uncapped_args) 2)
     (pageConcurrency uncapped_args) (page_order blank_env) = Some (Inr [blank_page 1, blank_page 2]) \<and>
   nonEmptyPages [blank_page 1, blank_page 2] = [] \<and>
   ocr_worker blank_env uncapped_args scenario_file empty_store =
     Some (catch_failed 1800 blank_env scenario_file
             (Inl (NoTextAfterOcr 2 2 2),
              upsertDocPending (clock blank_env) (docPayload scenario_file) empty_store)) \<and>
   extractAllPagesFromBuffer (tools blank_env) = Inr ([], (2, 0, 2)) \<and>
   textlayer_worker blank_env scenario_file empty_store =
     catch_failed 1600 blank_env scenario_file
       (Inl (NoTextLayer 2 0 2),
        upsertDocPending (clock blank_env) (docPayload scenario_file) empty_store) \<and>
   extractor blank_env = Inr ([(1, None), (2, Some [32, LF])], ascii ''{totalPages:2}'') \<and>
   mem_pages [(1, None), (2, Some [32, LF])] = [] \<and>
   mem_worker blank_env scenario_file empty_store =
     catch_failed 1600 blank_env scenario_file
       (Inl (NoTextInMemory (ascii ''{totalPages:2}'')),
        upsertDocPending (clock blank_env) (docPayload scenario_file) empty_store) \<and>
   failed_ok blank_env \<and>
   column_of
     (snd (catch_failed 1800 blank_env scenario_file
             (Inl (NoTextAfterOcr 2 2 2),
              upsertDocPending (clock blank_env) (docPayload scenario_file) empty_store)))
     (customId scenario_file) Col_status = Some (Str (ascii ''failed''))"
proof -
  have h1: "pending_ok blank_env" "download_ok blank_env" "failed_ok blank_env"
    by (simp_all add: blank_env_def scenario_env_def)
  have h2: "pdfinfo (tools blank_env) = Some 2"
    by (simp add: blank_env_def scenario_env_def blank_tools_def)
  have h3: "0 < pageConcurrency uncapped_args"
    by (simp add: uncapped_args_def)
  have h4: "ocr_pages (tools blank_env) (pagesToProcess (maxPages uncapped_args) 2)
     (pageConcurrency uncapped_args) (page_order blank_env) = Some (Inr [blank_page 1, blank_page 2])"
    by code_simp
  have h5: "nonEmptyPages [blank_page 1, blank_page 2] = []"
    by code_simp
  have h6: "extractAllPagesFromBuffer (tools blank_env) = Inr ([], (2, 0, 2))"
    by code_simp
  have h7: "filter (\<lambda>p. hasMeaningfulText (page_text p)) [] = []"
    by simp
  have h8: "extractor blank_env = Inr ([(1, None), (2, Some [32, LF])], ascii ''{totalPages:2}'')"
    by (simp add: blank_env_def)
  have h9: "mem_pages [(1, None), (2, Some [32, LF])] = []"
    by code_simp
  note t = C4_empty_extraction_fails [of blank_env 2 uncapped_args "[blank_page 1, blank_page 2]"
      scenario_file empty_store "[]" "(2, 0, 2)" "[(1, None), (2, Some [32, LF])]"
      "ascii ''{totalPages:2}''" 1800 "NoTextAfterOcr 2 2 2"
      "upsertDocPending (clock blank_env) (docPayload scenario_file) empty_store"]
  have u: "pagesToProcess (maxPages uncapped_args) 2 = 2"
    by (simp add: uncapped_args_def pagesToProcess_def)
  have w1: "ocr_worker blank_env uncapped_args scenario_file empty_store =
     Some (catch_failed 1800 blank_env scenario_file
             (Inl (NoTextAfterOcr 2 2 2),
              upsertDocPending (clock blank_env) (docPayload scenario_file) empty_store))"
    using t h1 h2 h3 h4 h5 unfolding u by blast
  have w2: "textlayer_worker blank_env scenario_file empty_store =
     catch_failed 1600 blank_env scenario_file
       (Inl (NoTextLayer 2 0 2),
        upsertDocPending (clock blank_env) (docPayload scenario_file) empty_store)"
    using t h1 h2 h6 h7 by fastforce
  have w3: "mem_worker blank_env scenario_file empty_store =
     catch_failed 1600 blank_env scenario_file
       (Inl (NoTextInMemory (ascii ''{totalPages:2}'')),
        upsertDocPending (clock blank_env) (docPayload scenario_file) empty_store)"
    using t h1 h8 h9 by blast
  have w4: "column_of
     (snd (catch_failed 1800 blank_env scenario_file
             (Inl (NoTextAfterOcr 2 2 2),
              upsertDocPending (clock blank_env) (docPayload scenario_file) empty_store)))
     (customId scenario_file) Col_status = Some (Str (ascii ''failed''))"
    using t h1 by blast
  show ?thesis
    using h1 h2 h3 h4 h5 h6 h8 h9 w1 w2 w3 w4 by blast
qed

end
